theory Spec2Isabelle
  imports Complex_Main "HOL-Library.Word"
begin

text \<open>
  An embedding of \<open>bot/index.js\<close>, the WhatsApp bot that receives transfer receipts
  and hands them to the Python API: the queue \<open>colaComprobantes\<close> with its flag
  \<open>procesando\<close>, the function \<open>procesarCola\<close>, the \<open>message_create\<close> handler and the
  two \<open>disconnected\<close> handlers.  The listeners that only log (\<open>qr\<close>,
  \<open>authenticated\<close>, \<open>auth_failure\<close>, \<open>change_state\<close>, \<open>loading_screen\<close>, \<open>ready\<close>) and
  the start-up code are left out.
\<close>

section \<open>JavaScript values used by the bot\<close>

text \<open>
  A JavaScript string is a sequence of UTF-16 code units.  ASCII literals of the
  source are written with \<open>asc\<close>; the few non-ASCII characters of the reply texts
  are given by their code unit.
\<close>

type_synonym jsstring = "16 word list"

definition asc :: "string \<Rightarrow> jsstring" where
  "asc s = map (\<lambda>c. of_nat (of_char c)) s"

text \<open>
  Values that can come back from the HTTP service (a parsed JSON document, or a raw
  string) and that can sit in the \<open>code\<close> and \<open>message\<close> of a thrown error.
  A number is represented by the real it denotes.
\<close>

datatype jsval =
    Undefined
  | Null
  | Bool bool
  | Num real
  | Str jsstring
  | Arr "jsval list"
  | Obj "(jsstring \<times> jsval) list"

text \<open>Truthiness, as used by \<open>if (v)\<close> and \<open>v || d\<close>.\<close>

fun truthy :: "jsval \<Rightarrow> bool" where
  "truthy Undefined = False"
| "truthy Null = False"
| "truthy (Bool b) = b"
| "truthy (Num r) = (r \<noteq> 0)"
| "truthy (Str s) = (s \<noteq> [])"
| "truthy (Arr _) = True"
| "truthy (Obj _) = True"

definition js_or :: "jsval \<Rightarrow> jsval \<Rightarrow> jsval" where
  "js_or a b = (if truthy a then a else b)"

fun nullish :: "jsval \<Rightarrow> bool" where
  "nullish Undefined = True"
| "nullish Null = True"
| "nullish _ = False"

text \<open>
  \<open>v.k\<close> for a \<open>v\<close> that is neither \<open>null\<close> nor \<open>undefined\<close>, and a key \<open>k\<close> that is
  no built-in property of strings, numbers, booleans or arrays (the source reads only
  \<open>success\<close>, \<open>data\<close>, \<open>message\<close>, \<open>monto_numerico\<close> and \<open>emisor_nombre\<close>).
\<close>

fun prop_of :: "jsval \<Rightarrow> jsstring \<Rightarrow> jsval" where
  "prop_of (Obj kvs) k = (case map_of kvs k of Some v \<Rightarrow> v | None \<Rightarrow> Undefined)"
| "prop_of _ k = Undefined"

text \<open>Optional chaining \<open>v?.k\<close>.\<close>

definition optional_prop :: "jsval \<Rightarrow> jsstring \<Rightarrow> jsval" where
  "optional_prop v k = (if nullish v then Undefined else prop_of v k)"

record js_error =
  code :: jsval
  message :: jsval

text \<open>
  The \<open>TypeError\<close> raised by reading a property of \<open>null\<close> or \<open>undefined\<close>: it has no
  \<open>code\<close>; the wording of its message is the engine's.
\<close>

definition type_error :: js_error where
  "type_error = \<lparr>code = Undefined, message = Str (asc ''TypeError'')\<rparr>"

subsection \<open>String operations\<close>

text \<open>\<open>String.prototype.trim\<close> removes white space and line terminators at both ends.\<close>

definition isWhiteSpace :: "16 word \<Rightarrow> bool" where
  "isWhiteSpace c =
     (c \<in> set [0x0009, 0x000A, 0x000B, 0x000C, 0x000D, 0x0020, 0x00A0, 0x1680,
               0x2028, 0x2029, 0x202F, 0x205F, 0x3000, 0xFEFF]
      \<or> (0x2000 \<le> c \<and> c \<le> 0x200A))"

definition trim :: "jsstring \<Rightarrow> jsstring" where
  "trim s = rev (dropWhile isWhiteSpace (rev (dropWhile isWhiteSpace s)))"

definition endsWith :: "jsstring \<Rightarrow> jsstring \<Rightarrow> bool" where
  "endsWith s suf =
     (length suf \<le> length s \<and> drop (length s - length suf) s = suf)"

definition substring0 :: "jsstring \<Rightarrow> nat \<Rightarrow> jsstring" where
  "substring0 s n = take n s"

text \<open>\<open>b || ''\<close> for a body that is a string or missing.\<close>

definition or_empty :: "jsstring option \<Rightarrow> jsstring" where
  "or_empty b = (case b of None \<Rightarrow> [] | Some s \<Rightarrow> s)"

section \<open>Messages, attachments and the queue\<close>

record Message =
  msg_from :: jsstring
  fromMe :: bool
  hasMedia :: bool
  body :: "jsstring option"

record MessageMedia =
  data :: jsstring
  mimetype :: jsstring
  filename :: "jsstring option"

record queue_item =
  media :: MessageMedia
  msg :: Message

text \<open>The JSON body of the POST; \<open>timestamp\<close> is the instant (milliseconds since the
  epoch) that \<open>toISOString\<close> renders.\<close>

record request =
  file_base64 :: jsstring
  sender_phone :: jsstring
  mime_type :: jsstring
  timestamp :: nat
  texto_completo :: jsstring

record post_config =
  timeout :: nat
  content_type :: jsstring

definition API_TIMEOUT :: nat where
  "API_TIMEOUT = 120000"

definition ENDPOINT :: jsstring where
  "ENDPOINT = asc ''/process-receipt/''"

subsection \<open>Texts sent to the sender\<close>

definition MSG_ERROR_GENERICO :: jsstring where
  "MSG_ERROR_GENERICO = [0x274C] @ asc '' Error al procesar comprobante.''"

definition MSG_API_CAIDA :: jsstring where
  "MSG_API_CAIDA =
     [0x274C] @ asc '' Error: El sistema principal no est'' @ [0x00E1]
     @ asc '' respondiendo (API ca'' @ [0x00ED] @ asc ''da).''"

definition MSG_TIMEOUT :: jsstring where
  "MSG_TIMEOUT = [0x274C] @ asc '' Error: Tiempo de espera agotado al procesar.''"

definition MSG_SOLO_COMPROBANTES :: jsstring where
  "MSG_SOLO_COMPROBANTES =
     asc ''Este n'' @ [0x00FA] @ asc ''mero solo recibe comprobantes (imagen JPG/PNG o PDF).''"

definition tiposValidos :: "jsstring list" where
  "tiposValidos =
     [asc ''application/pdf'', asc ''image/jpeg'', asc ''image/png'', asc ''image/jpg'']"

section \<open>Observable effects\<close>

text \<open>What \<open>console.log\<close>, \<open>console.warn\<close> and \<open>console.error\<close> print, kept structured.\<close>

datatype nombre = Nombre jsstring | Comprobante nat

datatype logline =
    DebugMensaje jsstring bool
  | TextoRecibido jsstring jsstring
  | ErrorAlResponder jsval
  | DescargandoMedia jsstring
  | NoSePudoDescargar
  | Recibido jsstring jsstring jsstring
  | TipoNoSoportado jsstring
  | ErrorAlProcesarMensaje jsval
  | Procesando nombre
  | Procesado jsval jsval
  | ProcesadoConAdvertencia jsval
  | ApiNoResponde
  | TimeoutAlProcesar
  | ErrorAlProcesar jsval
  | Desconectado jsval
  | IntentandoReconectar

text \<open>The two callbacks handed to \<open>setTimeout\<close>: the resolver of the pause between
  two items, and the call of \<open>client.initialize()\<close>.\<close>

datatype callback = ResolveDelay | CallInitialize

text \<open>
  Calls that leave the process, and two marks (\<open>Push\<close>, \<open>AxiosPost\<close> carrying the item)
  that record what happens to the queue.
\<close>

datatype action =
    Log logline
  | Reply Message jsstring
  | DownloadMedia Message
  | Push queue_item
  | AxiosPost queue_item jsstring request post_config
  | SetTimeout callback nat
  | Initialize

section \<open>The event loop\<close>

text \<open>
  The process is a single-threaded event loop.  An \<open>await\<close> suspends the running
  function until the awaited promise settles; what is suspended is kept as a
  \<open>task\<close> under a fresh identifier.  \<open>HReply\<close> and \<open>HDownload\<close> are suspended
  \<open>message_create\<close> handlers; \<open>WPost\<close>, \<open>WReply\<close> and \<open>WDelay\<close> are suspended
  activations of \<open>procesarCola\<close>; \<open>TReinit\<close> is the reconnection timer and \<open>PInit\<close>
  the promise of the \<open>client.initialize()\<close> it calls.  Timers carry the instant at
  which they are due.
\<close>

datatype task =
    HReply Message
  | HDownload Message
  | WPost queue_item
  | WReply queue_item
  | WDelay nat
  | TReinit nat
  | PInit

record state =
  cola :: "queue_item list"
  procesando :: bool
  clock :: nat
  next_id :: nat
  tasks :: "(nat \<times> task) list"
  trace :: "(nat \<times> action) list"
  uncaught :: "js_error list"

definition init :: state where
  "init = \<lparr>cola = [], procesando = False, clock = 0, next_id = 0, tasks = [],
           trace = [], uncaught = []\<rparr>"

definition emit :: "action \<Rightarrow> state \<Rightarrow> state" where
  "emit a s = s\<lparr>trace := trace s @ [(clock s, a)]\<rparr>"

definition suspend :: "task \<Rightarrow> state \<Rightarrow> state" where
  "suspend t s = s\<lparr>tasks := tasks s @ [(next_id s, t)], next_id := Suc (next_id s)\<rparr>"

definition detach :: "nat \<Rightarrow> task \<Rightarrow> state \<Rightarrow> state" where
  "detach i t s = s\<lparr>tasks := remove1 (i, t) (tasks s)\<rparr>"

subsection \<open>\<open>procesarCola\<close>\<close>

definition nombreArchivo :: "MessageMedia \<Rightarrow> nat \<Rightarrow> nombre" where
  "nombreArchivo m now =
     (case filename m of
        Some f \<Rightarrow> if f \<noteq> [] then Nombre f else Comprobante now
      | None \<Rightarrow> Comprobante now)"

definition build_request :: "queue_item \<Rightarrow> nat \<Rightarrow> request" where
  "build_request item now =
     \<lparr>file_base64 = data (media item),
      sender_phone = msg_from (msg item),
      mime_type = mimetype (media item),
      timestamp = now,
      texto_completo = or_empty (body (msg item))\<rparr>"

definition axios_config :: post_config where
  "axios_config = \<lparr>timeout = API_TIMEOUT, content_type = asc ''application/json''\<rparr>"

text \<open>
  The head of the \<open>while\<close> loop, run until the first \<open>await\<close>: with an empty queue the
  loop ends and the flag is cleared; otherwise the head item is shifted and posted.
\<close>

definition procesarCola_loop :: "state \<Rightarrow> state" where
  "procesarCola_loop s =
     (case cola s of
        [] \<Rightarrow> s\<lparr>procesando := False\<rparr>
      | item # rest \<Rightarrow>
          suspend (WPost item)
            (emit (AxiosPost item ENDPOINT (build_request item (clock s)) axios_config)
              (emit (Log (Procesando (nombreArchivo (media item) (clock s))))
                (s\<lparr>cola := rest\<rparr>))))"

definition procesarCola :: "state \<Rightarrow> state" where
  "procesarCola s =
     (if procesando s then s else procesarCola_loop (s\<lparr>procesando := True\<rparr>))"

text \<open>\<open>await new Promise(r => setTimeout(r, 2000))\<close>\<close>

definition esperar :: "state \<Rightarrow> state" where
  "esperar s = suspend (WDelay (clock s + 2000)) (emit (SetTimeout ResolveDelay 2000) s)"

text \<open>The \<open>catch (error)\<close> branch, up to its \<open>await msg.reply(errorMsg)\<close>.\<close>

definition catch_error :: "state \<Rightarrow> queue_item \<Rightarrow> js_error \<Rightarrow> state" where
  "catch_error s item error =
     (if code error = Str (asc ''ECONNREFUSED'') then
        suspend (WReply item)
          (emit (Reply (msg item) MSG_API_CAIDA) (emit (Log ApiNoResponde) s))
      else if code error = Str (asc ''ETIMEDOUT'') then
        suspend (WReply item)
          (emit (Reply (msg item) MSG_TIMEOUT) (emit (Log TimeoutAlProcesar) s))
      else
        suspend (WReply item)
          (emit (Reply (msg item) MSG_ERROR_GENERICO)
            (emit (Log (ErrorAlProcesar (message error))) s)))"

text \<open>The \<open>try\<close> block after the response has arrived; \<open>rdata\<close> is \<open>response.data\<close>.\<close>

definition on_response :: "state \<Rightarrow> queue_item \<Rightarrow> jsval \<Rightarrow> state" where
  "on_response s item rdata =
     (if nullish rdata then catch_error s item type_error
      else if truthy (prop_of rdata (asc ''success'')) then
        (let monto = js_or (optional_prop (prop_of rdata (asc ''data'')) (asc ''monto_numerico''))
                       (Str (asc ''N/A''));
             emisor = js_or (optional_prop (prop_of rdata (asc ''data'')) (asc ''emisor_nombre''))
                        (Str (asc ''Desconocido''))
         in esperar (emit (Log (Procesado monto emisor)) s))
      else
        esperar (emit (Log (ProcesadoConAdvertencia (prop_of rdata (asc ''message'')))) s))"

definition after_post :: "state \<Rightarrow> queue_item \<Rightarrow> js_error + jsval \<Rightarrow> state" where
  "after_post s item r =
     (case r of Inl error \<Rightarrow> catch_error s item error | Inr rdata \<Rightarrow> on_response s item rdata)"

text \<open>\<open>try { await msg.reply(errorMsg); } catch (e) { }\<close>: both outcomes go on.\<close>

definition worker_after_reply :: "state \<Rightarrow> js_error option \<Rightarrow> state" where
  "worker_after_reply s r = (case r of None \<Rightarrow> esperar s | Some e \<Rightarrow> esperar s)"

subsection \<open>The \<open>message_create\<close> handler\<close>

definition on_message_create :: "state \<Rightarrow> Message \<Rightarrow> state" where
  "on_message_create s0 m =
     (let s = emit (Log (DebugMensaje (msg_from m) (hasMedia m))) s0 in
      if fromMe m then s
      else if msg_from m = asc ''status@broadcast'' then s
      else if endsWith (msg_from m) (asc ''@g.us'') then s
      else if \<not> hasMedia m then
        (let texto = trim (or_empty (body m)) in
         if length texto > 0 then
           suspend (HReply m)
             (emit (Reply m MSG_SOLO_COMPROBANTES)
               (emit (Log (TextoRecibido (msg_from m) (substring0 texto 50))) s))
         else s)
      else
        suspend (HDownload m)
          (emit (DownloadMedia m) (emit (Log (DescargandoMedia (msg_from m))) s)))"

definition handler_after_reply :: "state \<Rightarrow> js_error option \<Rightarrow> state" where
  "handler_after_reply s r =
     (case r of None \<Rightarrow> s | Some error \<Rightarrow> emit (Log (ErrorAlResponder (message error))) s)"

definition archivo :: "MessageMedia \<Rightarrow> jsstring" where
  "archivo m =
     (case filename m of
        Some f \<Rightarrow> if f \<noteq> [] then f else asc ''archivo''
      | None \<Rightarrow> asc ''archivo'')"

definition enqueue :: "state \<Rightarrow> queue_item \<Rightarrow> state" where
  "enqueue s item = procesarCola (emit (Push item) (s\<lparr>cola := cola s @ [item]\<rparr>))"

definition after_download ::
  "state \<Rightarrow> Message \<Rightarrow> js_error + MessageMedia option \<Rightarrow> state" where
  "after_download s m r =
     (case r of
        Inl error \<Rightarrow> emit (Log (ErrorAlProcesarMensaje (message error))) s
      | Inr None \<Rightarrow> emit (Log NoSePudoDescargar) s
      | Inr (Some md) \<Rightarrow>
          if mimetype md \<in> set tiposValidos then
            enqueue (emit (Log (Recibido (archivo md) (mimetype md) (msg_from m))) s)
              \<lparr>media = md, msg = m\<rparr>
          else emit (Log (TipoNoSoportado (mimetype md))) s)"

subsection \<open>The \<open>disconnected\<close> handlers\<close>

text \<open>Two listeners are registered; they run in registration order.\<close>

definition on_disconnected :: "state \<Rightarrow> jsval \<Rightarrow> state" where
  "on_disconnected s reason =
     suspend (TReinit (clock s + 5000))
       (emit (SetTimeout CallInitialize 5000)
         (emit (Log IntentandoReconectar)
           (emit (Log (Desconectado reason)) (emit (Log (Desconectado reason)) s))))"

text \<open>The timer's callback calls \<open>client.initialize()\<close> and drops the promise, so a
  rejection of it is handled by nobody.\<close>

definition reinitialize :: "state \<Rightarrow> state" where
  "reinitialize s = suspend PInit (emit Initialize s)"

definition after_initialize :: "state \<Rightarrow> js_error option \<Rightarrow> state" where
  "after_initialize s r =
     (case r of None \<Rightarrow> s | Some error \<Rightarrow> s\<lparr>uncaught := uncaught s @ [error]\<rparr>)"

subsection \<open>Dispatch\<close>

text \<open>
  \<open>Tick d\<close> lets \<open>d\<close> milliseconds pass; the clock stands still while one event is
  handled, so every \<open>new Date()\<close> and \<open>Date.now()\<close> of one synchronous run reads the
  same instant.  The other events are what the environment
  delivers: a message, a disconnection, or the settling of a pending call or timer.
  \<open>PostDone i (Inr rdata)\<close> is the promise of \<open>axios.post\<close> fulfilled with a response
  whose \<open>data\<close> is \<open>rdata\<close>; \<open>PostDone i (Inl error)\<close> is that promise rejected, be
  it by a network error, by the request's timeout or by a response whose status
  \<open>axios\<close> does not accept.
  An event for a task that is not pending, or a timer that is not yet due, finds
  nothing to resume and leaves the state as it is.
\<close>

datatype event =
    Tick nat
  | MessageCreate Message
  | Disconnected jsval
  | ReplyDone nat "js_error option"
  | DownloadDone nat "js_error + MessageMedia option"
  | PostDone nat "js_error + jsval"
  | TimerFired nat
  | InitDone nat "js_error option"

fun step :: "state \<Rightarrow> event \<Rightarrow> state" where
  "step s (Tick d) = s\<lparr>clock := clock s + d\<rparr>"
| "step s (MessageCreate m) = on_message_create s m"
| "step s (Disconnected reason) = on_disconnected s reason"
| "step s (ReplyDone i r) =
     (case map_of (tasks s) i of
        Some (HReply m) \<Rightarrow> handler_after_reply (detach i (HReply m) s) r
      | Some (WReply item) \<Rightarrow> worker_after_reply (detach i (WReply item) s) r
      | _ \<Rightarrow> s)"
| "step s (DownloadDone i r) =
     (case map_of (tasks s) i of
        Some (HDownload m) \<Rightarrow> after_download (detach i (HDownload m) s) m r
      | _ \<Rightarrow> s)"
| "step s (PostDone i r) =
     (case map_of (tasks s) i of
        Some (WPost item) \<Rightarrow> after_post (detach i (WPost item) s) item r
      | _ \<Rightarrow> s)"
| "step s (TimerFired i) =
     (case map_of (tasks s) i of
        Some (WDelay due) \<Rightarrow>
          if due \<le> clock s then procesarCola_loop (detach i (WDelay due) s) else s
      | Some (TReinit due) \<Rightarrow>
          if due \<le> clock s then reinitialize (detach i (TReinit due) s) else s
      | _ \<Rightarrow> s)"
| "step s (InitDone i r) =
     (case map_of (tasks s) i of
        Some PInit \<Rightarrow> after_initialize (detach i PInit s) r
      | _ \<Rightarrow> s)"

definition run :: "event list \<Rightarrow> state" where
  "run evs = foldl step init evs"

section \<open>Observations on a state\<close>

text \<open>The items posted so far, the items pushed so far and the replies attempted so
  far, each in the order of the trace.\<close>

fun post_of :: "nat \<times> action \<Rightarrow> queue_item list" where
  "post_of (t, AxiosPost item url req cfg) = [item]"
| "post_of _ = []"

fun push_of :: "nat \<times> action \<Rightarrow> queue_item list" where
  "push_of (t, Push item) = [item]"
| "push_of _ = []"

fun reply_of :: "nat \<times> action \<Rightarrow> (Message \<times> jsstring) list" where
  "reply_of (t, Reply m txt) = [(m, txt)]"
| "reply_of _ = []"

definition forwarded :: "state \<Rightarrow> queue_item list" where
  "forwarded s = concat (map post_of (trace s))"

definition enqueued :: "state \<Rightarrow> queue_item list" where
  "enqueued s = concat (map push_of (trace s))"

definition replies :: "state \<Rightarrow> (Message \<times> jsstring) list" where
  "replies s = concat (map reply_of (trace s))"

text \<open>The suspended activations of \<open>procesarCola\<close>, and those of them whose HTTP call
  is in flight.\<close>

fun is_worker :: "task \<Rightarrow> bool" where
  "is_worker (WPost _) = True"
| "is_worker (WReply _) = True"
| "is_worker (WDelay _) = True"
| "is_worker _ = False"

fun is_post :: "task \<Rightarrow> bool" where
  "is_post (WPost _) = True"
| "is_post _ = False"

definition workers :: "state \<Rightarrow> task list" where
  "workers s = filter is_worker (map snd (tasks s))"

definition in_flight :: "state \<Rightarrow> task list" where
  "in_flight s = filter is_post (map snd (tasks s))"

text \<open>
  The pause between items, read off a trace.  The gate is \<open>Busy\<close> from a post until
  the 2000 ms timer that follows it is set, and \<open>Open due\<close> afterwards: the next post
  may not come before \<open>due\<close>.  The gate of a trace is \<open>None\<close> when some post found
  the gate busy or not yet due.
\<close>

datatype gate = Open nat | Busy

fun gate_step :: "gate option \<Rightarrow> nat \<times> action \<Rightarrow> gate option" where
  "gate_step None _ = None"
| "gate_step (Some (Open due)) (t, AxiosPost item url req cfg) =
     (if due \<le> t then Some Busy else None)"
| "gate_step (Some Busy) (t, AxiosPost item url req cfg) = None"
| "gate_step (Some Busy) (t, SetTimeout ResolveDelay d) =
     (if d = 2000 then Some (Open (t + 2000)) else Some Busy)"
| "gate_step (Some g) _ = Some g"

definition gate_of :: "(nat \<times> action) list \<Rightarrow> gate option" where
  "gate_of tr = foldl gate_step (Some (Open 0)) tr"

text \<open>The gate that goes with each stage of the loop.\<close>

fun stage_ok :: "gate option \<Rightarrow> nat \<Rightarrow> task list \<Rightarrow> bool" where
  "stage_ok g now [] = (case g of Some (Open due) \<Rightarrow> due \<le> now | _ \<Rightarrow> False)"
| "stage_ok g now [WPost item] = (g = Some Busy)"
| "stage_ok g now [WReply item] = (g = Some Busy)"
| "stage_ok g now [WDelay due] = (g = Some (Open due))"
| "stage_ok g now _ = False"

definition loop_inv :: "state \<Rightarrow> bool" where
  "loop_inv s =
     (length (workers s) = (if procesando s then 1 else 0)
      \<and> (\<not> procesando s \<longrightarrow> cola s = [])
      \<and> stage_ok (gate_of (trace s)) (clock s) (workers s))"

text \<open>A post is well formed when it goes to the endpoint with the body built from its
  item at the instant of the call, under the fixed configuration.\<close>

fun post_ok :: "nat \<times> action \<Rightarrow> bool" where
  "post_ok (t, AxiosPost item url req cfg) =
     (url = ENDPOINT \<and> req = build_request item t \<and> cfg = axios_config)"
| "post_ok _ = True"

definition fifo :: "state \<Rightarrow> bool" where
  "fifo s = (forwarded s @ cola s = enqueued s)"

text \<open>The instant written into each posted body, the instant at which each item was
  pushed, and the instant at which each download was asked for.\<close>

fun stamp_of :: "nat \<times> action \<Rightarrow> (queue_item \<times> nat) list" where
  "stamp_of (t, AxiosPost item url req cfg) = [(item, timestamp req)]"
| "stamp_of _ = []"

fun pushed_at :: "nat \<times> action \<Rightarrow> (queue_item \<times> nat) list" where
  "pushed_at (t, Push item) = [(item, t)]"
| "pushed_at _ = []"

fun asked_at :: "nat \<times> action \<Rightarrow> (Message \<times> nat) list" where
  "asked_at (t, DownloadMedia m) = [(m, t)]"
| "asked_at _ = []"

definition posted_stamps :: "state \<Rightarrow> (queue_item \<times> nat) list" where
  "posted_stamps s = concat (map stamp_of (trace s))"

definition push_times :: "state \<Rightarrow> (queue_item \<times> nat) list" where
  "push_times s = concat (map pushed_at (trace s))"

definition download_times :: "state \<Rightarrow> (Message \<times> nat) list" where
  "download_times s = concat (map asked_at (trace s))"

text \<open>The reconnection timers set so far, with their instants and delays, and the calls of
  \<open>client.initialize()\<close> made so far, with their instants.\<close>

fun reconnect_of :: "nat \<times> action \<Rightarrow> (nat \<times> nat) list" where
  "reconnect_of (t, SetTimeout CallInitialize d) = [(t, d)]"
| "reconnect_of _ = []"

fun initialize_at :: "nat \<times> action \<Rightarrow> nat list" where
  "initialize_at (t, Initialize) = [t]"
| "initialize_at _ = []"

definition reconnect_timers :: "state \<Rightarrow> (nat \<times> nat) list" where
  "reconnect_timers s = concat (map reconnect_of (trace s))"

definition initialize_calls :: "state \<Rightarrow> nat list" where
  "initialize_calls s = concat (map initialize_at (trace s))"

text \<open>The instants at which the pending reconnection timers are due.\<close>

fun reinit_due :: "nat \<times> task \<Rightarrow> nat list" where
  "reinit_due (i, TReinit due) = [due]"
| "reinit_due _ = []"

definition pending_reinits :: "state \<Rightarrow> nat list" where
  "pending_reinits s = concat (map reinit_due (tasks s))"

text \<open>Every pending reconnection timer is due 5000 ms after it was set, and every
  call of \<open>client.initialize()\<close> comes 5000 ms or more after some timer was set.\<close>

definition reconnect_inv :: "state \<Rightarrow> bool" where
  "reconnect_inv s =
     ((\<forall>due \<in> set (pending_reinits s).
         \<exists>(t0, d) \<in> set (reconnect_timers s). due = t0 + 5000)
      \<and> (\<forall>t \<in> set (initialize_calls s).
         \<exists>(t0, d) \<in> set (reconnect_timers s). t0 + 5000 \<le> t))"

definition posts_ok :: "state \<Rightarrow> bool" where
  "posts_ok s = list_all post_ok (trace s)"

fun is_disconnect :: "event \<Rightarrow> bool" where
  "is_disconnect (Disconnected reason) = True"
| "is_disconnect _ = False"

fun init_failure :: "event \<Rightarrow> bool" where
  "init_failure (InitDone i (Some error)) = True"
| "init_failure _ = False"

section \<open>Example inputs\<close>

definition msg_recibo :: Message where
  "msg_recibo = \<lparr>msg_from = asc ''5491155550001@c.us'', fromMe = False, hasMedia = True,
                  body = Some (asc ''pago de marzo'')\<rparr>"

definition msg_otro :: Message where
  "msg_otro = \<lparr>msg_from = asc ''5491155550002@c.us'', fromMe = False, hasMedia = True,
                body = None\<rparr>"

definition msg_hola :: Message where
  "msg_hola = \<lparr>msg_from = asc ''5491155550001@c.us'', fromMe = False, hasMedia = False,
                body = Some (asc ''hola'')\<rparr>"

definition msg_blanco :: Message where
  "msg_blanco = \<lparr>msg_from = asc ''5491155550001@c.us'', fromMe = False, hasMedia = False,
                  body = Some [0x0020, 0x000A, 0x00A0]\<rparr>"

definition msg_grupo :: Message where
  "msg_grupo = \<lparr>msg_from = asc ''120363000000000001@g.us'', fromMe = False, hasMedia = True,
                 body = Some (asc ''comprobante'')\<rparr>"

definition msg_propio :: Message where
  "msg_propio = \<lparr>msg_from = asc ''5491155550009@c.us'', fromMe = True, hasMedia = True,
                  body = Some (asc ''enviado'')\<rparr>"

definition msg_estado :: Message where
  "msg_estado = \<lparr>msg_from = asc ''status@broadcast'', fromMe = False, hasMedia = True,
                  body = None\<rparr>"

definition msg_vacio :: Message where
  "msg_vacio = \<lparr>msg_from = asc ''5491155550001@c.us'', fromMe = False, hasMedia = False,
                 body = None\<rparr>"

definition media_png :: MessageMedia where
  "media_png = \<lparr>data = asc ''iVBORw0KGgo='', mimetype = asc ''image/png'', filename = None\<rparr>"

definition media_pdf :: MessageMedia where
  "media_pdf = \<lparr>data = asc ''JVBERi0xLjQ='', mimetype = asc ''application/pdf'',
                 filename = Some (asc ''recibo.pdf'')\<rparr>"

definition media_gif :: MessageMedia where
  "media_gif = \<lparr>data = asc ''R0lGODlh'', mimetype = asc ''image/gif'', filename = None\<rparr>"

definition item_png :: queue_item where
  "item_png = \<lparr>media = media_png, msg = msg_recibo\<rparr>"

definition item_pdf :: queue_item where
  "item_pdf = \<lparr>media = media_pdf, msg = msg_otro\<rparr>"

definition err_refused :: js_error where
  "err_refused = \<lparr>code = Str (asc ''ECONNREFUSED''),
                   message = Str (asc ''connect ECONNREFUSED 127.0.0.1:8000'')\<rparr>"

definition err_timedout :: js_error where
  "err_timedout = \<lparr>code = Str (asc ''ETIMEDOUT''), message = Str (asc ''connect ETIMEDOUT'')\<rparr>"

definition err_status :: js_error where
  "err_status = \<lparr>code = Str (asc ''ERR_BAD_RESPONSE''),
                  message = Str (asc ''Request failed with status code 500'')\<rparr>"

text \<open>The error with which \<open>axios\<close> rejects when the \<open>timeout\<close> given to the request
  runs out and \<open>transitional.clarifyTimeoutError\<close> is not set, as in the source.\<close>

definition err_axios_timeout :: js_error where
  "err_axios_timeout = \<lparr>code = Str (asc ''ECONNABORTED''),
                        message = Str (asc ''timeout of 120000ms exceeded'')\<rparr>"

definition err_reply :: js_error where
  "err_reply = \<lparr>code = Undefined, message = Str (asc ''Evaluation failed'')\<rparr>"

definition resp_ok :: jsval where
  "resp_ok = Obj [(asc ''success'', Bool True),
                  (asc ''data'', Obj [(asc ''monto_numerico'', Num 1500),
                                      (asc ''emisor_nombre'', Str (asc ''Juan''))])]"

definition resp_sin_datos :: jsval where
  "resp_sin_datos = Obj [(asc ''success'', Bool True)]"

definition resp_sin_emisor :: jsval where
  "resp_sin_emisor = Obj [(asc ''success'', Bool True),
                          (asc ''data'', Obj [(asc ''monto_numerico'', Num 1500)])]"

text \<open>A response whose amount and issuer are present, the amount being \<open>0\<close> and the
  issuer the empty string.\<close>

definition resp_cero :: jsval where
  "resp_cero = Obj [(asc ''success'', Bool True),
                    (asc ''data'', Obj [(asc ''monto_numerico'', Num 0),
                                        (asc ''emisor_nombre'', Str [])])]"

definition resp_rechazo :: jsval where
  "resp_rechazo = Obj [(asc ''success'', Bool False),
                       (asc ''message'', Str (asc ''Comprobante duplicado''))]"

text \<open>One receipt arrives and is downloaded while the queue is idle.\<close>

definition evs_uno :: "event list" where
  "evs_uno = [Tick 1000, MessageCreate msg_recibo, Tick 500,
              DownloadDone 0 (Inr (Some media_png))]"

text \<open>A second receipt arrives while the first is being posted.\<close>

definition evs_dos :: "event list" where
  "evs_dos = evs_uno @ [Tick 100, MessageCreate msg_otro, Tick 200,
                        DownloadDone 2 (Inr (Some media_pdf))]"

text \<open>The first post is refused while the second receipt waits; the reply goes through;
  the pause runs out.\<close>

definition evs_falla :: "event list" where
  "evs_falla = evs_dos @ [Tick 700, PostDone 1 (Inl err_refused)]"

definition evs_pausa :: "event list" where
  "evs_pausa = evs_falla @ [Tick 50, ReplyDone 3 None]"

definition evs_listo :: "event list" where
  "evs_listo = evs_pausa @ [Tick 2000]"

text \<open>A single receipt is accepted by the service and its pause runs out.\<close>

definition evs_fin :: "event list" where
  "evs_fin = evs_uno @ [Tick 800, PostDone 1 (Inr resp_ok), Tick 2000]"

text \<open>The second receipt is posted once the pause after the first is over.\<close>

definition evs_tarde :: "event list" where
  "evs_tarde = evs_listo @ [TimerFired 4]"

text \<open>The session drops twice; the first timer runs out and fires.\<close>

definition evs_caida :: "event list" where
  "evs_caida = [Tick 100, Disconnected (Str (asc ''NAVIGATION'')), Tick 3000,
                Disconnected (Str (asc ''LOGOUT'')), Tick 2000, TimerFired 0]"

section \<open>Properties\<close>

lemmas model_defs = run_def init_def on_message_create_def emit_def suspend_def detach_def
  after_download_def enqueue_def procesarCola_def procesarCola_loop_def asc_def endsWith_def
  tiposValidos_def after_post_def on_response_def catch_error_def esperar_def
  worker_after_reply_def handler_after_reply_def on_disconnected_def reinitialize_def
  after_initialize_def trim_def isWhiteSpace_def or_empty_def substring0_def archivo_def
  nombreArchivo_def Let_def

lemmas ex_defs = msg_recibo_def msg_otro_def msg_hola_def msg_blanco_def msg_grupo_def
  media_png_def media_pdf_def media_gif_def item_png_def item_pdf_def err_refused_def
  err_timedout_def err_status_def err_reply_def err_axios_timeout_def resp_ok_def
  resp_sin_datos_def resp_sin_emisor_def resp_cero_def
  resp_rechazo_def evs_uno_def evs_dos_def evs_falla_def evs_pausa_def evs_listo_def
  evs_fin_def evs_tarde_def evs_caida_def msg_propio_def msg_estado_def msg_vacio_def


subsection \<open>The primitive state operations\<close>

lemma emit_fields:
  "cola (emit a s) = cola s" "procesando (emit a s) = procesando s"
  "clock (emit a s) = clock s" "next_id (emit a s) = next_id s"
  "tasks (emit a s) = tasks s" "uncaught (emit a s) = uncaught s"
  "trace (emit a s) = trace s @ [(clock s, a)]"
  by (simp_all add: emit_def)

lemma suspend_fields:
  "cola (suspend t s) = cola s" "procesando (suspend t s) = procesando s"
  "clock (suspend t s) = clock s" "next_id (suspend t s) = Suc (next_id s)"
  "tasks (suspend t s) = tasks s @ [(next_id s, t)]" "uncaught (suspend t s) = uncaught s"
  "trace (suspend t s) = trace s"
  by (simp_all add: suspend_def)

lemma detach_fields:
  "cola (detach i t s) = cola s" "procesando (detach i t s) = procesando s"
  "clock (detach i t s) = clock s" "next_id (detach i t s) = next_id s"
  "tasks (detach i t s) = remove1 (i, t) (tasks s)" "uncaught (detach i t s) = uncaught s"
  "trace (detach i t s) = trace s"
  by (simp_all add: detach_def)

lemma workers_emit: "workers (emit a s) = workers s"
  by (simp add: workers_def emit_fields)

lemma workers_suspend:
  "workers (suspend t s) = workers s @ (if is_worker t then [t] else [])"
  by (simp add: workers_def suspend_fields)

lemma workers_upd:
  "workers (s\<lparr>cola := c\<rparr>) = workers s" "workers (s\<lparr>procesando := b\<rparr>) = workers s"
  "workers (s\<lparr>clock := n\<rparr>) = workers s" "workers (s\<lparr>uncaught := u\<rparr>) = workers s"
  by (simp_all add: workers_def)

lemma gate_of_append: "gate_of (tr @ xs) = foldl gate_step (gate_of tr) xs"
  by (simp add: gate_of_def)

lemma map_of_mem: "map_of xs i = Some t \<Longrightarrow> (i, t) \<in> set xs"
  by (rule map_of_SomeD)

lemma filter_snd_remove1_other:
  "\<not> P t \<Longrightarrow> filter P (map snd (remove1 (i, t) xs)) = filter P (map snd xs)"
  by (induction xs) auto

lemma length_filter_snd_remove1:
  "(i, t) \<in> set xs \<Longrightarrow> P t \<Longrightarrow>
   Suc (length (filter P (map snd (remove1 (i, t) xs)))) = length (filter P (map snd xs))"
  by (induction xs) auto

lemma workers_detach_other:
  "\<not> is_worker t \<Longrightarrow> workers (detach i t s) = workers s"
  unfolding workers_def detach_fields by (rule filter_snd_remove1_other)

lemma length_workers_detach:
  "map_of (tasks s) i = Some t \<Longrightarrow> is_worker t \<Longrightarrow>
   Suc (length (workers (detach i t s))) = length (workers s)"
  unfolding workers_def detach_fields
  by (rule length_filter_snd_remove1) (auto dest: map_of_SomeD)

lemma workers_mem:
  "map_of (tasks s) i = Some t \<Longrightarrow> is_worker t \<Longrightarrow> t \<in> set (workers s)"
  by (force simp: workers_def dest: map_of_SomeD)

lemma sole_worker:
  assumes "loop_inv s" "map_of (tasks s) i = Some t" "is_worker t"
  shows "procesando s \<and> workers s = [t] \<and> workers (detach i t s) = []"
proof -
  have mem: "t \<in> set (workers s)" using assms(2,3) by (rule workers_mem)
  then have ne: "workers s \<noteq> []" by auto
  with assms(1) have p: "procesando s" by (auto simp: loop_inv_def split: if_splits)
  with assms(1) have one: "length (workers s) = 1" by (simp add: loop_inv_def)
  with mem have w: "workers s = [t]" by (cases "workers s") auto
  from length_workers_detach [OF assms(2,3)] one have "workers (detach i t s) = []" by simp
  with p w show ?thesis by simp
qed


subsection \<open>The gate\<close>

lemma gate_step_neutral:
  "gate_step g (t, Log l) = g" "gate_step g (t, Reply m txt) = g"
  "gate_step g (t, DownloadMedia m) = g" "gate_step g (t, Push item) = g"
  "gate_step g (t, SetTimeout CallInitialize d) = g" "gate_step g (t, Initialize) = g"
  by (cases g; cases "the g"; simp)+

lemma gate_emit_neutral:
  "gate_step (gate_of (trace s)) (clock s, a) = gate_of (trace s) \<Longrightarrow>
   gate_of (trace (emit a s)) = gate_of (trace s)"
  by (simp add: emit_fields gate_of_append)


lemma stage_ok_idle: "stage_ok g now [] \<Longrightarrow> \<exists>due. g = Some (Open due) \<and> due \<le> now"
  by (cases g; cases "the g"; simp)

lemma stage_ok_later: "stage_ok g now ws \<Longrightarrow> now \<le> now' \<Longrightarrow> stage_ok g now' ws"
  by (induction g now ws rule: stage_ok.induct) (auto split: option.splits gate.splits)

subsection \<open>The loop invariant\<close>

lemma loop_inv_init: "loop_inv init"
  by (simp add: loop_inv_def init_def workers_def gate_of_def)

lemma loop_inv_emit:
  assumes "loop_inv s" "gate_step (gate_of (trace s)) (clock s, a) = gate_of (trace s)"
  shows "loop_inv (emit a s)"
  using assms by (simp add: loop_inv_def workers_emit emit_fields gate_of_append)

lemma loop_inv_suspend:
  assumes "loop_inv s" "\<not> is_worker t"
  shows "loop_inv (suspend t s)"
  using assms by (simp add: loop_inv_def workers_suspend suspend_fields)

lemma loop_inv_detach:
  assumes "loop_inv s" "\<not> is_worker t"
  shows "loop_inv (detach i t s)"
  using assms by (simp add: loop_inv_def workers_detach_other detach_fields)

lemma loop_inv_loop:
  assumes "procesando s" "workers s = []" "gate_of (trace s) = Some (Open due)" "due \<le> clock s"
  shows "loop_inv (procesarCola_loop s)"
proof (cases "cola s")
  case Nil
  with assms show ?thesis
    by (simp add: procesarCola_loop_def loop_inv_def workers_upd)
next
  case (Cons item rest)
  with assms show ?thesis
    by (simp add: procesarCola_loop_def loop_inv_def workers_upd workers_emit workers_suspend
        emit_fields suspend_fields gate_of_append gate_step_neutral)
qed

lemma loop_inv_esperar:
  assumes "procesando s" "workers s = []" "gate_of (trace s) = Some Busy"
  shows "loop_inv (esperar s)"
  using assms
  by (simp add: esperar_def loop_inv_def workers_emit workers_suspend emit_fields
      suspend_fields gate_of_append)

lemma loop_inv_catch_error:
  assumes "procesando s" "workers s = []" "gate_of (trace s) = Some Busy"
  shows "loop_inv (catch_error s item error)"
  using assms
  by (simp add: catch_error_def loop_inv_def workers_emit workers_suspend emit_fields
      suspend_fields gate_of_append gate_step_neutral)

lemma busy_emit_log:
  assumes "procesando s" "workers s = []" "gate_of (trace s) = Some Busy"
  shows "procesando (emit (Log l) s) \<and> workers (emit (Log l) s) = []
         \<and> gate_of (trace (emit (Log l) s)) = Some Busy"
  using assms by (simp add: workers_emit emit_fields gate_of_append)

lemma loop_inv_on_response:
  assumes "procesando s" "workers s = []" "gate_of (trace s) = Some Busy"
  shows "loop_inv (on_response s item rdata)"
  using assms busy_emit_log [OF assms]
  by (simp add: on_response_def Let_def loop_inv_catch_error loop_inv_esperar)

lemma loop_inv_after_post:
  assumes "procesando s" "workers s = []" "gate_of (trace s) = Some Busy"
  shows "loop_inv (after_post s item r)"
  using assms
  by (simp add: after_post_def loop_inv_catch_error loop_inv_on_response split: sum.splits)

lemma loop_inv_worker_after_reply:
  assumes "procesando s" "workers s = []" "gate_of (trace s) = Some Busy"
  shows "loop_inv (worker_after_reply s r)"
  using assms by (simp add: worker_after_reply_def loop_inv_esperar split: option.splits)


lemma loop_inv_on_message_create: "loop_inv s \<Longrightarrow> loop_inv (on_message_create s m)"
  by (simp add: on_message_create_def Let_def loop_inv_emit loop_inv_suspend
      gate_step_neutral emit_fields)

lemma loop_inv_handler_after_reply: "loop_inv s \<Longrightarrow> loop_inv (handler_after_reply s r)"
  by (simp add: handler_after_reply_def loop_inv_emit gate_step_neutral split: option.splits)

lemma loop_inv_procesarCola:
  assumes "stage_ok (gate_of (trace s)) (clock s) (workers s)"
    "length (workers s) = (if procesando s then 1 else 0)" "procesando s \<or> cola s \<noteq> []"
  shows "loop_inv (procesarCola s)"
proof (cases "procesando s")
  case True
  with assms show ?thesis by (simp add: procesarCola_def loop_inv_def)
next
  case False
  with assms(2) have w: "workers s = []" by simp
  from stage_ok_idle [OF assms(1) [unfolded w]]
  obtain due where g: "gate_of (trace s) = Some (Open due)" "due \<le> clock s" by blast
  have "loop_inv (procesarCola_loop (s\<lparr>procesando := True\<rparr>))"
    by (rule loop_inv_loop [where due = due]) (simp_all add: workers_upd w g)
  with False show ?thesis by (simp add: procesarCola_def)
qed

lemma loop_inv_enqueue: "loop_inv s \<Longrightarrow> loop_inv (enqueue s item)"
  unfolding enqueue_def
  by (rule loop_inv_procesarCola)
     (simp_all add: loop_inv_def emit_fields workers_emit workers_upd gate_of_append
       gate_step_neutral)

lemma loop_inv_after_download: "loop_inv s \<Longrightarrow> loop_inv (after_download s m r)"
  by (simp add: after_download_def loop_inv_emit loop_inv_enqueue gate_step_neutral
      split: sum.splits option.splits)

lemma loop_inv_on_disconnected: "loop_inv s \<Longrightarrow> loop_inv (on_disconnected s reason)"
  by (simp add: on_disconnected_def loop_inv_emit loop_inv_suspend gate_step_neutral
      emit_fields)

lemma loop_inv_reinitialize: "loop_inv s \<Longrightarrow> loop_inv (reinitialize s)"
  by (simp add: reinitialize_def loop_inv_emit loop_inv_suspend gate_step_neutral)

lemma loop_inv_after_initialize: "loop_inv s \<Longrightarrow> loop_inv (after_initialize s r)"
  by (auto simp: after_initialize_def loop_inv_def workers_upd split: option.splits)

lemma loop_inv_tick: "loop_inv s \<Longrightarrow> loop_inv (s\<lparr>clock := clock s + d\<rparr>)"
  by (auto simp: loop_inv_def workers_upd intro: stage_ok_later)

lemma busy_detach:
  assumes "loop_inv s" "map_of (tasks s) i = Some t" "t = WPost item \<or> t = WReply item"
  shows "procesando (detach i t s) \<and> workers (detach i t s) = []
         \<and> gate_of (trace (detach i t s)) = Some Busy"
proof -
  from assms(3) have "is_worker t" by auto
  from sole_worker [OF assms(1,2) this] have *: "procesando s" "workers s = [t]"
    "workers (detach i t s) = []" by simp_all
  from assms(1) * assms(3) have "gate_of (trace s) = Some Busy"
    by (auto simp: loop_inv_def)
  with * show ?thesis by (simp add: detach_fields)
qed

lemma delay_detach:
  assumes "loop_inv s" "map_of (tasks s) i = Some (WDelay due)"
  shows "procesando (detach i (WDelay due) s) \<and> workers (detach i (WDelay due) s) = []
         \<and> gate_of (trace (detach i (WDelay due) s)) = Some (Open due)"
proof -
  from sole_worker [OF assms(1,2)] have *: "procesando s" "workers s = [WDelay due]"
    "workers (detach i (WDelay due) s) = []" by simp_all
  from assms(1) * have "gate_of (trace s) = Some (Open due)"
    by (auto simp: loop_inv_def)
  with * show ?thesis by (simp add: detach_fields)
qed

lemma loop_inv_step: "loop_inv s \<Longrightarrow> loop_inv (step s e)"
proof (cases e)
  case (Tick d)
  assume "loop_inv s" with Tick show ?thesis by (simp add: loop_inv_tick)
next
  case (MessageCreate m)
  assume "loop_inv s" with MessageCreate show ?thesis by (simp add: loop_inv_on_message_create)
next
  case (Disconnected r)
  assume "loop_inv s" with Disconnected show ?thesis by (simp add: loop_inv_on_disconnected)
next
  case (ReplyDone i r)
  assume inv: "loop_inv s"
  show ?thesis
  proof (cases "map_of (tasks s) i")
    case None
    with ReplyDone inv show ?thesis by simp
  next
    case (Some t)
    show ?thesis
    proof (cases t)
      case (HReply m)
      with Some ReplyDone inv show ?thesis
        by (simp add: loop_inv_handler_after_reply loop_inv_detach)
    next
      case (WReply item)
      with busy_detach [OF inv Some, of item] Some ReplyDone show ?thesis
        by (simp add: loop_inv_worker_after_reply)
    qed (use Some ReplyDone inv in simp_all)
  qed
next
  case (DownloadDone i r)
  assume inv: "loop_inv s"
  with DownloadDone show ?thesis
    by (simp add: loop_inv_after_download loop_inv_detach split: option.splits task.splits)
next
  case (PostDone i r)
  assume inv: "loop_inv s"
  show ?thesis
  proof (cases "map_of (tasks s) i")
    case None
    with PostDone inv show ?thesis by simp
  next
    case (Some t)
    show ?thesis
    proof (cases t)
      case (WPost item)
      with busy_detach [OF inv Some, of item] Some PostDone show ?thesis
        by (simp add: loop_inv_after_post)
    qed (use Some PostDone inv in simp_all)
  qed
next
  case (TimerFired i)
  assume inv: "loop_inv s"
  show ?thesis
  proof (cases "map_of (tasks s) i")
    case None
    with TimerFired inv show ?thesis by simp
  next
    case (Some t)
    show ?thesis
    proof (cases t)
      case (WDelay due)
      with delay_detach [OF inv, of i due] Some TimerFired inv show ?thesis
        by (auto simp: detach_fields intro: loop_inv_loop [where due = due])
    next
      case (TReinit due)
      with Some TimerFired inv show ?thesis
        by (simp add: loop_inv_reinitialize loop_inv_detach)
    qed (use Some TimerFired inv in simp_all)
  qed
next
  case (InitDone i r)
  assume inv: "loop_inv s"
  with InitDone show ?thesis
    by (simp add: loop_inv_after_initialize loop_inv_detach split: option.splits task.splits)
qed

lemma foldl_step_inv:
  assumes "\<And>s e. P s \<Longrightarrow> P (step s e)" "P s"
  shows "P (foldl step s evs)"
  using assms(2) by (induction evs arbitrary: s) (simp_all add: assms(1))

lemma loop_inv_run: "loop_inv (run evs)"
  unfolding run_def by (rule foldl_step_inv) (simp_all add: loop_inv_step loop_inv_init)


subsection \<open>First in, first out\<close>

lemma observers_emit:
  "forwarded (emit a s) = forwarded s @ post_of (clock s, a)"
  "enqueued (emit a s) = enqueued s @ push_of (clock s, a)"
  "replies (emit a s) = replies s @ reply_of (clock s, a)"
  by (simp_all add: forwarded_def enqueued_def replies_def emit_fields)

lemma observers_suspend:
  "forwarded (suspend t s) = forwarded s" "enqueued (suspend t s) = enqueued s"
  "replies (suspend t s) = replies s"
  by (simp_all add: forwarded_def enqueued_def replies_def suspend_fields)

lemma observers_detach:
  "forwarded (detach i t s) = forwarded s" "enqueued (detach i t s) = enqueued s"
  "replies (detach i t s) = replies s"
  by (simp_all add: forwarded_def enqueued_def replies_def detach_fields)

lemma observers_upd:
  "forwarded (s\<lparr>cola := c\<rparr>) = forwarded s" "enqueued (s\<lparr>cola := c\<rparr>) = enqueued s"
  "replies (s\<lparr>cola := c\<rparr>) = replies s"
  "forwarded (s\<lparr>procesando := b\<rparr>) = forwarded s" "enqueued (s\<lparr>procesando := b\<rparr>) = enqueued s"
  "replies (s\<lparr>procesando := b\<rparr>) = replies s"
  "forwarded (s\<lparr>clock := n\<rparr>) = forwarded s" "enqueued (s\<lparr>clock := n\<rparr>) = enqueued s"
  "replies (s\<lparr>clock := n\<rparr>) = replies s"
  "forwarded (s\<lparr>uncaught := u\<rparr>) = forwarded s" "enqueued (s\<lparr>uncaught := u\<rparr>) = enqueued s"
  "replies (s\<lparr>uncaught := u\<rparr>) = replies s"
  by (simp_all add: forwarded_def enqueued_def replies_def)

lemmas observers = observers_emit observers_suspend observers_detach observers_upd
  emit_fields suspend_fields detach_fields

lemma fifo_loop: "fifo s \<Longrightarrow> fifo (procesarCola_loop s)"
  by (cases "cola s") (simp_all add: fifo_def procesarCola_loop_def observers)

lemma fifo_esperar: "fifo s \<Longrightarrow> fifo (esperar s)"
  by (simp add: fifo_def esperar_def observers)

lemma fifo_catch_error: "fifo s \<Longrightarrow> fifo (catch_error s item error)"
  by (simp add: fifo_def catch_error_def observers)

lemma fifo_emit_log: "fifo s \<Longrightarrow> fifo (emit (Log l) s)"
  by (simp add: fifo_def observers)

lemma fifo_after_post: "fifo s \<Longrightarrow> fifo (after_post s item r)"
  by (simp add: after_post_def on_response_def Let_def fifo_catch_error fifo_esperar
      fifo_emit_log split: sum.splits)

lemma fifo_worker_after_reply: "fifo s \<Longrightarrow> fifo (worker_after_reply s r)"
  by (simp add: worker_after_reply_def fifo_esperar split: option.splits)

lemma fifo_on_message_create: "fifo s \<Longrightarrow> fifo (on_message_create s m)"
  by (simp add: fifo_def on_message_create_def Let_def observers)

lemma fifo_handler_after_reply: "fifo s \<Longrightarrow> fifo (handler_after_reply s r)"
  by (simp add: handler_after_reply_def fifo_emit_log split: option.splits)

lemma fifo_enqueue: "fifo s \<Longrightarrow> fifo (enqueue s item)"
proof -
  assume "fifo s"
  then have "fifo (emit (Push item) (s\<lparr>cola := cola s @ [item]\<rparr>))"
    by (simp add: fifo_def observers)
  then show ?thesis
    by (auto simp: enqueue_def procesarCola_def fifo_def observers intro: fifo_loop [unfolded fifo_def])
qed

lemma fifo_after_download: "fifo s \<Longrightarrow> fifo (after_download s m r)"
  by (simp add: after_download_def fifo_emit_log fifo_enqueue split: sum.splits option.splits)

lemma fifo_on_disconnected: "fifo s \<Longrightarrow> fifo (on_disconnected s reason)"
  by (simp add: fifo_def on_disconnected_def observers)

lemma fifo_reinitialize: "fifo s \<Longrightarrow> fifo (reinitialize s)"
  by (simp add: fifo_def reinitialize_def observers)

lemma fifo_after_initialize: "fifo s \<Longrightarrow> fifo (after_initialize s r)"
  by (simp add: fifo_def after_initialize_def observers split: option.splits)

lemma fifo_detach: "fifo s \<Longrightarrow> fifo (detach i t s)"
  by (simp add: fifo_def observers)

lemma fifo_step: "fifo s \<Longrightarrow> fifo (step s e)"
proof (cases e)
  case (Tick d)
  assume "fifo s" with Tick show ?thesis by (simp add: fifo_def observers)
next
  case (TimerFired i)
  assume "fifo s" with TimerFired show ?thesis
    by (simp add: fifo_loop fifo_detach fifo_reinitialize split: option.splits task.splits)
next
  case (InitDone i r)
  assume "fifo s" with InitDone show ?thesis
    by (simp add: fifo_detach fifo_after_initialize split: option.splits task.splits)
qed (simp_all add: fifo_on_message_create fifo_on_disconnected fifo_handler_after_reply
      fifo_worker_after_reply fifo_after_download fifo_after_post fifo_detach
      split: option.splits task.splits)

lemma fifo_run: "fifo (run evs)"
  unfolding run_def by (rule foldl_step_inv) (simp_all add: fifo_step, simp add: fifo_def init_def forwarded_def enqueued_def)


subsection \<open>What each stage of the loop leaves behind\<close>

lemma esperar_effect:
  "workers (esperar s) = workers s @ [WDelay (clock s + 2000)]"
  "cola (esperar s) = cola s" "forwarded (esperar s) = forwarded s"
  "procesando (esperar s) = procesando s"
  by (simp_all add: esperar_def workers_suspend workers_emit observers)

lemma catch_error_effect:
  "workers (catch_error s item error) = workers s @ [WReply item]"
  "cola (catch_error s item error) = cola s"
  "forwarded (catch_error s item error) = forwarded s"
  "procesando (catch_error s item error) = procesando s"
  by (simp_all add: catch_error_def workers_suspend workers_emit observers)

lemma after_post_effect:
  "workers (after_post s item r) = workers s @ [WDelay (clock s + 2000)]
   \<or> workers (after_post s item r) = workers s @ [WReply item]"
  "cola (after_post s item r) = cola s"
  "forwarded (after_post s item r) = forwarded s"
  "procesando (after_post s item r) = procesando s"
  by (simp_all add: after_post_def on_response_def Let_def esperar_effect catch_error_effect
      workers_emit observers split: sum.splits)

lemma loop_effect_empty:
  "cola s = [] \<Longrightarrow> \<not> procesando (procesarCola_loop s) \<and>
     workers (procesarCola_loop s) = workers s \<and> cola (procesarCola_loop s) = [] \<and>
     forwarded (procesarCola_loop s) = forwarded s"
  by (simp add: procesarCola_loop_def workers_upd observers)

lemma loop_effect_item:
  "cola s = item # rest \<Longrightarrow>
     procesando (procesarCola_loop s) = procesando s \<and>
     workers (procesarCola_loop s) = workers s @ [WPost item] \<and>
     cola (procesarCola_loop s) = rest \<and>
     forwarded (procesarCola_loop s) = forwarded s @ [item]"
  by (simp add: procesarCola_loop_def workers_upd workers_suspend workers_emit observers)

lemma enqueue_idle:
  assumes "\<not> procesando s" "workers s = []" "cola s = []"
  shows "procesando (enqueue s item) \<and> workers (enqueue s item) = [WPost item] \<and>
         cola (enqueue s item) = [] \<and> forwarded (enqueue s item) = forwarded s @ [item] \<and>
         enqueued (enqueue s item) = enqueued s @ [item]"
  using assms
  by (simp add: enqueue_def procesarCola_def procesarCola_loop_def workers_upd workers_suspend
      workers_emit observers)

lemma enqueue_running:
  assumes "procesando s"
  shows "procesando (enqueue s item) \<and> workers (enqueue s item) = workers s \<and>
         cola (enqueue s item) = cola s @ [item] \<and> forwarded (enqueue s item) = forwarded s \<and>
         enqueued (enqueue s item) = enqueued s @ [item]"
  using assms
  by (simp add: enqueue_def procesarCola_def workers_upd workers_emit observers)

lemma in_flight_workers: "in_flight s = filter is_post (workers s)"
proof -
  have "\<And>t. (is_worker t \<and> is_post t) = is_post t" by (case_tac t) simp_all
  then show ?thesis by (simp add: in_flight_def workers_def del: filter_map)
qed

lemma stage_ok_gate: "stage_ok g now ws \<Longrightarrow> g \<noteq> None"
  by (induction g now ws rule: stage_ok.induct) (auto split: option.splits)

lemma loop_inv_facts:
  assumes "loop_inv s"
  shows "length (workers s) \<le> 1" "length (in_flight s) \<le> 1" "gate_of (trace s) \<noteq> None"
    "procesando s = (workers s \<noteq> [])" "\<not> procesando s \<Longrightarrow> cola s = []"
proof -
  from assms show w: "length (workers s) \<le> 1" by (simp add: loop_inv_def split: if_splits)
  have "length (in_flight s) \<le> length (workers s)"
    unfolding in_flight_workers by (rule length_filter_le)
  with w show "length (in_flight s) \<le> 1" by simp
  from assms show "gate_of (trace s) \<noteq> None"
    by (auto simp: loop_inv_def dest: stage_ok_gate)
  from assms show "procesando s = (workers s \<noteq> [])"
    by (auto simp: loop_inv_def split: if_splits)
  from assms show "\<not> procesando s \<Longrightarrow> cola s = []" by (simp add: loop_inv_def)
qed

lemma post_settles:
  assumes "loop_inv s" "map_of (tasks s) i = Some (WPost item)"
  shows "(workers (step s (PostDone i r)) = [WDelay (clock s + 2000)]
          \<or> workers (step s (PostDone i r)) = [WReply item])
         \<and> cola (step s (PostDone i r)) = cola s
         \<and> forwarded (step s (PostDone i r)) = forwarded s"
  using busy_detach [OF assms, of item] assms(2)
    after_post_effect [of "detach i (WPost item) s" item r]
  by (simp add: observers)

lemma worker_reply_settles:
  assumes "loop_inv s" "map_of (tasks s) i = Some (WReply item)"
  shows "workers (step s (ReplyDone i r)) = [WDelay (clock s + 2000)]
         \<and> cola (step s (ReplyDone i r)) = cola s
         \<and> forwarded (step s (ReplyDone i r)) = forwarded s"
  using busy_detach [OF assms, of item] assms(2)
  by (simp add: worker_after_reply_def esperar_effect observers split: option.splits)

lemma delay_early:
  assumes "map_of (tasks s) i = Some (WDelay due)" "clock s < due"
  shows "step s (TimerFired i) = s"
  using assms by simp

lemma delay_over_empty:
  assumes "loop_inv s" "map_of (tasks s) i = Some (WDelay due)" "due \<le> clock s" "cola s = []"
  shows "\<not> procesando (step s (TimerFired i)) \<and> workers (step s (TimerFired i)) = []
         \<and> forwarded (step s (TimerFired i)) = forwarded s"
  using delay_detach [OF assms(1,2)] assms(2,3,4)
    loop_effect_empty [of "detach i (WDelay due) s"]
  by (simp add: observers)

lemma delay_over_item:
  assumes "loop_inv s" "map_of (tasks s) i = Some (WDelay due)" "due \<le> clock s"
    "cola s = item # rest"
  shows "procesando (step s (TimerFired i)) \<and> workers (step s (TimerFired i)) = [WPost item]
         \<and> cola (step s (TimerFired i)) = rest
         \<and> forwarded (step s (TimerFired i)) = forwarded s @ [item]"
  using delay_detach [OF assms(1,2)] assms(2,3,4)
    loop_effect_item [of "detach i (WDelay due) s" item rest]
  by (simp add: observers)


subsection \<open>The pause between two posts\<close>

lemma foldl_gate_None: "foldl gate_step None tr = None"
  by (induction tr) simp_all

lemma gate_step_post:
  "gate_step g (t, AxiosPost item url req cfg) = Some g' \<Longrightarrow>
   g' = Busy \<and> (\<exists>due. g = Some (Open due) \<and> due \<le> t)"
  by (cases g; cases "the g") (auto split: if_splits)

lemma busy_to_open:
  "foldl gate_step (Some Busy) ys = Some (Open due) \<Longrightarrow>
   \<exists>t. (t, SetTimeout ResolveDelay 2000) \<in> set ys \<and> t + 2000 = due"
proof (induction ys arbitrary: due rule: rev_induct)
  case Nil
  then show ?case by simp
next
  case (snoc x ys)
  obtain t a where x: "x = (t, a)" by (cases x)
  show ?case
  proof (cases "foldl gate_step (Some Busy) ys")
    case None
    with snoc.prems show ?thesis by simp
  next
    case (Some g)
    show ?thesis
    proof (cases g)
      case (Open d)
      with Some snoc.prems x have "d = due"
        by (cases a) (auto split: if_splits)
      with Some Open snoc.IH [of due] show ?thesis by auto
    next
      case Busy
      with Some snoc.prems x have "a = SetTimeout ResolveDelay 2000 \<and> due = t + 2000"
        by (cases a; cases "case a of SetTimeout cb d \<Rightarrow> cb | _ \<Rightarrow> CallInitialize")
           (auto split: if_splits)
      with x show ?thesis by auto
    qed
  qed
qed

lemma pause_between_posts:
  assumes "gate_of tr \<noteq> None"
    "tr = xs @ (t1, AxiosPost i1 u1 r1 c1) # ys @ (t2, AxiosPost i2 u2 r2 c2) # zs"
  shows "\<exists>t. (t, SetTimeout ResolveDelay 2000) \<in> set ys \<and> t + 2000 \<le> t2"
proof -
  let ?p1 = "(t1, AxiosPost i1 u1 r1 c1)" and ?p2 = "(t2, AxiosPost i2 u2 r2 c2)"
  define g1 where "g1 = foldl gate_step (Some (Open 0)) xs"
  define g2 where "g2 = gate_step g1 ?p1"
  define g3 where "g3 = foldl gate_step g2 ys"
  define g4 where "g4 = gate_step g3 ?p2"
  have all: "gate_of tr = foldl gate_step g4 zs"
    by (simp add: gate_of_def assms(2) g1_def g2_def g3_def g4_def)
  with assms(1) obtain b4 where g4: "g4 = Some b4"
    by (cases g4) (auto simp: foldl_gate_None)
  from g4 [unfolded g4_def] gate_step_post [of g3 t2 i2 u2 r2 c2 b4]
  obtain due where g3: "g3 = Some (Open due)" "due \<le> t2" by blast
  have g2: "g2 = Some Busy"
  proof (cases g2)
    case None
    with g3(1) show ?thesis by (simp add: g3_def foldl_gate_None)
  next
    case (Some b2)
    from Some [unfolded g2_def] gate_step_post [of g1 t1 i1 u1 r1 c1 b2] Some
    show ?thesis by simp
  qed
  from g3(1) [unfolded g3_def g2] busy_to_open [of ys due]
  obtain t where "(t, SetTimeout ResolveDelay 2000) \<in> set ys" "t + 2000 = due" by blast
  with g3(2) show ?thesis by auto
qed

subsection \<open>The ingestion queue\<close>

text \<open>
  C1.  After any sequence of events: the items posted so far, followed by the items
  still queued, are exactly the items pushed, in the order of their arrival; at most
  one activation of \<open>procesarCola\<close> exists and at most one HTTP call is in flight;
  between any two posts a 2000 ms timer is set, and the later post comes no earlier
  than 2000 ms after that; the flag
  \<open>procesando\<close> is set exactly while an activation exists, and when none exists the
  queue is empty.  Whatever the outcome of a post, the activation goes on to the
  pause (directly, or through the reply of the error branch) without touching the
  queue; a pause that is not yet due cannot be left; when the pause is over the loop
  ends on an empty queue and clears the flag, and otherwise posts the head item; an
  enqueue that finds no loop running starts one on the new item, and an enqueue that
  finds one running only appends.
\<close>

theorem queue_single_consumer:
  "let s = run evs in
     forwarded s @ cola s = enqueued s
   \<and> length (workers s) \<le> 1 \<and> length (in_flight s) \<le> 1
   \<and> (\<forall>xs t1 i1 u1 r1 c1 ys t2 i2 u2 r2 c2 zs.
         trace s = xs @ (t1, AxiosPost i1 u1 r1 c1) # ys @ (t2, AxiosPost i2 u2 r2 c2) # zs \<longrightarrow>
         (\<exists>t. (t, SetTimeout ResolveDelay 2000) \<in> set ys \<and> t + 2000 \<le> t2))
   \<and> procesando s = (workers s \<noteq> [])
   \<and> (\<not> procesando s \<longrightarrow> cola s = [])
   \<and> (\<forall>i item r. map_of (tasks s) i = Some (WPost item) \<longrightarrow>
         (workers (step s (PostDone i r)) = [WDelay (clock s + 2000)]
          \<or> workers (step s (PostDone i r)) = [WReply item])
         \<and> cola (step s (PostDone i r)) = cola s
         \<and> forwarded (step s (PostDone i r)) = forwarded s)
   \<and> (\<forall>i item r. map_of (tasks s) i = Some (WReply item) \<longrightarrow>
         workers (step s (ReplyDone i r)) = [WDelay (clock s + 2000)]
         \<and> cola (step s (ReplyDone i r)) = cola s
         \<and> forwarded (step s (ReplyDone i r)) = forwarded s)
   \<and> (\<forall>i due. map_of (tasks s) i = Some (WDelay due) \<longrightarrow>
         (clock s < due \<longrightarrow> step s (TimerFired i) = s)
         \<and> (due \<le> clock s \<and> cola s = [] \<longrightarrow>
              \<not> procesando (step s (TimerFired i)) \<and> workers (step s (TimerFired i)) = []
              \<and> forwarded (step s (TimerFired i)) = forwarded s)
         \<and> (\<forall>item rest. due \<le> clock s \<and> cola s = item # rest \<longrightarrow>
              procesando (step s (TimerFired i))
              \<and> workers (step s (TimerFired i)) = [WPost item]
              \<and> cola (step s (TimerFired i)) = rest
              \<and> forwarded (step s (TimerFired i)) = forwarded s @ [item]))
   \<and> (\<forall>item. \<not> procesando s \<longrightarrow>
         procesando (enqueue s item) \<and> workers (enqueue s item) = [WPost item]
         \<and> cola (enqueue s item) = []
         \<and> forwarded (enqueue s item) = forwarded s @ [item])
   \<and> (\<forall>item. procesando s \<longrightarrow>
         procesando (enqueue s item) \<and> workers (enqueue s item) = workers s
         \<and> cola (enqueue s item) = cola s @ [item]
         \<and> forwarded (enqueue s item) = forwarded s)"
proof -
  define s where "s = run evs"
  have inv: "loop_inv s" unfolding s_def by (rule loop_inv_run)
  have ff: "forwarded s @ cola s = enqueued s"
    using fifo_run [of evs] by (simp add: fifo_def s_def)
  note facts = loop_inv_facts [OF inv]
  have idle: "\<not> procesando s \<Longrightarrow> workers s = []" using facts(4) by simp
  have a: "\<forall>i item r. map_of (tasks s) i = Some (WPost item) \<longrightarrow>
         (workers (step s (PostDone i r)) = [WDelay (clock s + 2000)]
          \<or> workers (step s (PostDone i r)) = [WReply item])
         \<and> cola (step s (PostDone i r)) = cola s
         \<and> forwarded (step s (PostDone i r)) = forwarded s"
    using post_settles [OF inv] by blast
  have b: "\<forall>i item r. map_of (tasks s) i = Some (WReply item) \<longrightarrow>
         workers (step s (ReplyDone i r)) = [WDelay (clock s + 2000)]
         \<and> cola (step s (ReplyDone i r)) = cola s
         \<and> forwarded (step s (ReplyDone i r)) = forwarded s"
    using worker_reply_settles [OF inv] by blast
  have c: "\<forall>i due. map_of (tasks s) i = Some (WDelay due) \<longrightarrow>
         (clock s < due \<longrightarrow> step s (TimerFired i) = s)
         \<and> (due \<le> clock s \<and> cola s = [] \<longrightarrow>
              \<not> procesando (step s (TimerFired i)) \<and> workers (step s (TimerFired i)) = []
              \<and> forwarded (step s (TimerFired i)) = forwarded s)
         \<and> (\<forall>item rest. due \<le> clock s \<and> cola s = item # rest \<longrightarrow>
              procesando (step s (TimerFired i))
              \<and> workers (step s (TimerFired i)) = [WPost item]
              \<and> cola (step s (TimerFired i)) = rest
              \<and> forwarded (step s (TimerFired i)) = forwarded s @ [item])"
    using delay_early [of s] delay_over_empty [OF inv] delay_over_item [OF inv] by blast
  have d: "\<forall>item. \<not> procesando s \<longrightarrow>
         procesando (enqueue s item) \<and> workers (enqueue s item) = [WPost item]
         \<and> cola (enqueue s item) = []
         \<and> forwarded (enqueue s item) = forwarded s @ [item]"
    using enqueue_idle [of s] idle facts(5) by blast
  have e: "\<forall>item. procesando s \<longrightarrow>
         procesando (enqueue s item) \<and> workers (enqueue s item) = workers s
         \<and> cola (enqueue s item) = cola s @ [item]
         \<and> forwarded (enqueue s item) = forwarded s"
    using enqueue_running [of s] by blast
  have p: "\<forall>xs t1 i1 u1 r1 c1 ys t2 i2 u2 r2 c2 zs.
         trace s = xs @ (t1, AxiosPost i1 u1 r1 c1) # ys @ (t2, AxiosPost i2 u2 r2 c2) # zs \<longrightarrow>
         (\<exists>t. (t, SetTimeout ResolveDelay 2000) \<in> set ys \<and> t + 2000 \<le> t2)"
    using pause_between_posts [OF facts(3)] by blast
  from ff facts(1,2) p facts(4) facts(5) a b c d e show ?thesis
    unfolding Let_def s_def [symmetric] by blast
qed

theorem queue_single_consumer_witness:
  "map_of (tasks (run evs_dos)) 1 = Some (WPost item_png)
   \<and> forwarded (run evs_dos) @ cola (run evs_dos) = [item_png, item_pdf]
   \<and> cola (step (run evs_dos) (PostDone 1 (Inr resp_ok))) = [item_pdf]
   \<and> map_of (tasks (run evs_falla)) 3 = Some (WReply item_png)
   \<and> workers (step (run evs_falla) (ReplyDone 3 (Some err_reply))) = [WDelay 4500]
   \<and> map_of (tasks (run evs_pausa)) 4 = Some (WDelay 4550)
   \<and> clock (run evs_pausa) < 4550
   \<and> step (run evs_pausa) (TimerFired 4) = run evs_pausa
   \<and> map_of (tasks (run evs_listo)) 4 = Some (WDelay 4550)
   \<and> 4550 \<le> clock (run evs_listo)
   \<and> workers (step (run evs_listo) (TimerFired 4)) = [WPost item_pdf]
   \<and> map_of (tasks (run evs_fin)) 2 = Some (WDelay 4300)
   \<and> 4300 \<le> clock (run evs_fin)
   \<and> \<not> procesando (step (run evs_fin) (TimerFired 2))
   \<and> \<not> procesando (run [])
   \<and> workers (enqueue (run []) item_png) = [WPost item_png]
   \<and> procesando (run evs_uno)
   \<and> cola (enqueue (run evs_uno) item_pdf) = [item_pdf]
   \<and> trace (run evs_tarde) ! 6
       = (1500, AxiosPost item_png ENDPOINT (build_request item_png 1500) axios_config)
   \<and> trace (run evs_tarde) ! 16
       = (4550, AxiosPost item_pdf ENDPOINT (build_request item_pdf 4550) axios_config)
   \<and> (\<exists>t. (t, SetTimeout ResolveDelay 2000) \<in> set (take 9 (drop 7 (trace (run evs_tarde))))
          \<and> t + 2000 \<le> 4550)"
proof -
  have h1: "map_of (tasks (run evs_dos)) 1 = Some (WPost item_png)"
    "cola (run evs_dos) = [item_pdf]" "enqueued (run evs_dos) = [item_png, item_pdf]"
    by (simp_all add: model_defs ex_defs enqueued_def)
  have h2: "map_of (tasks (run evs_falla)) 3 = Some (WReply item_png)"
    "clock (run evs_falla) = 2500"
    by (simp_all add: model_defs ex_defs)
  have h3: "map_of (tasks (run evs_pausa)) 4 = Some (WDelay 4550)"
    "clock (run evs_pausa) < 4550"
    by (simp_all add: model_defs ex_defs)
  have h4: "map_of (tasks (run evs_listo)) 4 = Some (WDelay 4550)"
    "4550 \<le> clock (run evs_listo)" "cola (run evs_listo) = [item_pdf]"
    by (simp_all add: model_defs ex_defs)
  have h5: "map_of (tasks (run evs_fin)) 2 = Some (WDelay 4300)"
    "4300 \<le> clock (run evs_fin)" "cola (run evs_fin) = []"
    by (simp_all add: model_defs ex_defs)
  have h6: "\<not> procesando (run [])" "procesando (run evs_uno)" "cola (run evs_uno) = []"
    by (simp_all add: model_defs ex_defs)
  note t1 = queue_single_consumer [of evs_dos, unfolded Let_def]
  note t2 = queue_single_consumer [of evs_falla, unfolded Let_def]
  note t3 = queue_single_consumer [of evs_pausa, unfolded Let_def]
  note t4 = queue_single_consumer [of evs_listo, unfolded Let_def]
  note t5 = queue_single_consumer [of evs_fin, unfolded Let_def]
  note t6 = queue_single_consumer [of "[]", unfolded Let_def]
  note t7 = queue_single_consumer [of evs_uno, unfolded Let_def]
  from t1 h1(3) have c1: "forwarded (run evs_dos) @ cola (run evs_dos) = [item_png, item_pdf]"
    by simp
  from t1 h1(1) have "cola (step (run evs_dos) (PostDone 1 (Inr resp_ok))) = cola (run evs_dos)"
    by blast
  with h1(2) have c2: "cola (step (run evs_dos) (PostDone 1 (Inr resp_ok))) = [item_pdf]"
    by simp
  from t2 h2(1) have "workers (step (run evs_falla) (ReplyDone 3 (Some err_reply)))
      = [WDelay (clock (run evs_falla) + 2000)]"
    by blast
  with h2(2) have c3: "workers (step (run evs_falla) (ReplyDone 3 (Some err_reply)))
      = [WDelay 4500]"
    by simp
  from t3 h3 have c4: "step (run evs_pausa) (TimerFired 4) = run evs_pausa"
    by blast
  from t4 h4 have c5: "workers (step (run evs_listo) (TimerFired 4)) = [WPost item_pdf]"
    by blast
  from t5 h5 have c6: "\<not> procesando (step (run evs_fin) (TimerFired 2))"
    by blast
  from t6 h6(1) have c7: "workers (enqueue (run []) item_png) = [WPost item_png]"
    by blast
  from t7 h6(2) have "cola (enqueue (run evs_uno) item_pdf) = cola (run evs_uno) @ [item_pdf]"
    by blast
  with h6(3) have c8: "cola (enqueue (run evs_uno) item_pdf) = [item_pdf]"
    by simp
  have h7: "trace (run evs_tarde) =
      take 6 (trace (run evs_tarde))
      @ (1500, AxiosPost item_png ENDPOINT (build_request item_png 1500) axios_config)
      # take 9 (drop 7 (trace (run evs_tarde)))
      @ (4550, AxiosPost item_pdf ENDPOINT (build_request item_pdf 4550) axios_config) # []"
    "trace (run evs_tarde) ! 6
       = (1500, AxiosPost item_png ENDPOINT (build_request item_png 1500) axios_config)"
    "trace (run evs_tarde) ! 16
       = (4550, AxiosPost item_pdf ENDPOINT (build_request item_pdf 4550) axios_config)"
    by (simp_all add: ex_defs model_defs)
  note t8 = queue_single_consumer [of evs_tarde, unfolded Let_def]
  note t9 = t8 [THEN conjunct2, THEN conjunct2, THEN conjunct2, THEN conjunct1, rule_format]
  from t9 [OF h7(1)]
  have c9: "\<exists>t. (t, SetTimeout ResolveDelay 2000) \<in> set (take 9 (drop 7 (trace (run evs_tarde))))
          \<and> t + 2000 \<le> 4550" .
  from h1(1) c1 c2 h2(1) c3 h3 c4 h4(1,2) c5 h5(1,2) c6 h6(1) c7 h6(2) c8 h7(2,3) c9
  show ?thesis by blast
qed

subsection \<open>The event filter\<close>

lemma endsWith_iff: "endsWith s suf = (\<exists>p. s = p @ suf)"
proof
  assume "endsWith s suf"
  then have "s = take (length s - length suf) s @ suf"
    by (metis append_take_drop_id endsWith_def)
  then show "\<exists>p. s = p @ suf" ..
next
  assume "\<exists>p. s = p @ suf"
  then show "endsWith s suf" by (auto simp: endsWith_def)
qed

lemma trim_blank:
  assumes "\<forall>c\<in>set b. isWhiteSpace c"
  shows "trim b = []"
proof -
  from assms have "dropWhile isWhiteSpace b = []" by (induction b) simp_all
  then show ?thesis unfolding trim_def by (simp only: rev.simps dropWhile.simps)
qed

lemma download_times_emit:
  "download_times (emit a s) = download_times s @ asked_at (clock s, a)"
  "download_times (suspend t s) = download_times s"
  "download_times (detach i t s) = download_times s"
  by (simp_all add: download_times_def observers)

lemmas obs_defs = forwarded_def enqueued_def replies_def download_times_def push_times_def
  posted_stamps_def reconnect_timers_def initialize_calls_def

text \<open>
  C4.  A message sent by the session itself, or coming from \<open>status@broadcast\<close>, or
  from an address ending in \<open>@g.us\<close>, leaves nothing but the debug line that every
  message gets: no download is asked for (even when the message has media), no task is
  suspended, no reply is attempted, and nothing is pushed or posted.
\<close>

theorem excluded_events_discarded:
  assumes "fromMe m \<or> msg_from m = asc ''status@broadcast''
           \<or> endsWith (msg_from m) (asc ''@g.us'')"
  shows "let s' = step s (MessageCreate m) in
           trace s' = trace s @ [(clock s, Log (DebugMensaje (msg_from m) (hasMedia m)))]
         \<and> tasks s' = tasks s \<and> download_times s' = download_times s
         \<and> replies s' = replies s
         \<and> cola s' = cola s \<and> enqueued s' = enqueued s \<and> forwarded s' = forwarded s
         \<and> procesando s' = procesando s"
  using assms
  by (auto simp: on_message_create_def Let_def observers download_times_emit)

theorem excluded_events_discarded_witness:
  "fromMe msg_propio
   \<and> tasks (step init (MessageCreate msg_propio)) = []
   \<and> replies (step init (MessageCreate msg_propio)) = []
   \<and> msg_from msg_estado = asc ''status@broadcast''
   \<and> tasks (step init (MessageCreate msg_estado)) = []
   \<and> replies (step init (MessageCreate msg_estado)) = []
   \<and> endsWith (msg_from msg_grupo) (asc ''@g.us'') \<and> hasMedia msg_grupo
   \<and> download_times (step init (MessageCreate msg_grupo)) = []
   \<and> replies (step init (MessageCreate msg_grupo)) = []
   \<and> enqueued (step init (MessageCreate msg_grupo)) = []"
proof -
  have h1: "fromMe msg_propio" by (simp add: ex_defs)
  have h2: "msg_from msg_estado = asc ''status@broadcast''" by (simp add: ex_defs)
  have h3: "endsWith (msg_from msg_grupo) (asc ''@g.us'')" "hasMedia msg_grupo"
    by (simp_all add: ex_defs endsWith_def asc_def)
  have i: "tasks init = []" "replies init = []" "download_times init = []" "enqueued init = []"
    by (simp_all add: init_def obs_defs)
  from h1 excluded_events_discarded [of msg_propio init, unfolded Let_def] i
  have c1: "tasks (step init (MessageCreate msg_propio)) = []
            \<and> replies (step init (MessageCreate msg_propio)) = []"
    by simp
  from h2 excluded_events_discarded [of msg_estado init, unfolded Let_def] i
  have c2: "tasks (step init (MessageCreate msg_estado)) = []
            \<and> replies (step init (MessageCreate msg_estado)) = []"
    by simp
  from h3 excluded_events_discarded [of msg_grupo init, unfolded Let_def] i
  have c3: "download_times (step init (MessageCreate msg_grupo)) = []
            \<and> replies (step init (MessageCreate msg_grupo)) = []
            \<and> enqueued (step init (MessageCreate msg_grupo)) = []"
    by simp
  from h1 h2 h3 c1 c2 c3 show ?thesis by blast
qed

text \<open>
  C5, as amended.  For a message that is not excluded and has no media: when the body,
  with the white space at both ends trimmed off, is not empty, exactly one reply is
  attempted, with the text that only receipts are accepted, and the handler is
  suspended on it; when the trimmed body is empty (or there is no body) nothing but
  the debug line is left.  In both cases no download is asked for and nothing is
  pushed or posted.
\<close>

theorem text_only_reply:
  assumes "\<not> fromMe m" "msg_from m \<noteq> asc ''status@broadcast''"
    "\<not> endsWith (msg_from m) (asc ''@g.us'')" "\<not> hasMedia m"
  shows "let s' = step s (MessageCreate m) in
           (trim (or_empty (body m)) \<noteq> [] \<longrightarrow>
              replies s' = replies s @ [(m, MSG_SOLO_COMPROBANTES)]
              \<and> tasks s' = tasks s @ [(next_id s, HReply m)])
         \<and> (trim (or_empty (body m)) = [] \<longrightarrow>
              replies s' = replies s \<and> tasks s' = tasks s
              \<and> trace s' = trace s @ [(clock s, Log (DebugMensaje (msg_from m) False))])
         \<and> download_times s' = download_times s
         \<and> cola s' = cola s \<and> enqueued s' = enqueued s \<and> forwarded s' = forwarded s"
  using assms
  by (simp add: on_message_create_def Let_def observers download_times_emit)

theorem text_only_reply_witness:
  "\<not> fromMe msg_hola \<and> msg_from msg_hola \<noteq> asc ''status@broadcast''
   \<and> \<not> endsWith (msg_from msg_hola) (asc ''@g.us'') \<and> \<not> hasMedia msg_hola
   \<and> trim (or_empty (body msg_hola)) \<noteq> []
   \<and> replies (step init (MessageCreate msg_hola)) = [(msg_hola, MSG_SOLO_COMPROBANTES)]
   \<and> enqueued (step init (MessageCreate msg_hola)) = []
   \<and> trim (or_empty (body msg_vacio)) = []
   \<and> replies (step init (MessageCreate msg_vacio)) = []
   \<and> tasks (step init (MessageCreate msg_vacio)) = []"
proof -
  have h: "\<not> fromMe msg_hola" "msg_from msg_hola \<noteq> asc ''status@broadcast''"
    "\<not> endsWith (msg_from msg_hola) (asc ''@g.us'')" "\<not> hasMedia msg_hola"
    by (simp_all add: ex_defs endsWith_def asc_def)
  have t: "trim (or_empty (body msg_hola)) \<noteq> []"
    by (simp add: ex_defs trim_def or_empty_def isWhiteSpace_def asc_def)
  have h': "\<not> fromMe msg_vacio" "msg_from msg_vacio \<noteq> asc ''status@broadcast''"
    "\<not> endsWith (msg_from msg_vacio) (asc ''@g.us'')" "\<not> hasMedia msg_vacio"
    by (simp_all add: ex_defs endsWith_def asc_def)
  have t': "trim (or_empty (body msg_vacio)) = []"
    by (simp add: ex_defs trim_def or_empty_def)
  have i: "tasks init = []" "replies init = []" "enqueued init = []"
    by (simp_all add: init_def obs_defs)
  from text_only_reply [OF h, of init, unfolded Let_def] t i
  have c1: "replies (step init (MessageCreate msg_hola)) = [(msg_hola, MSG_SOLO_COMPROBANTES)]
            \<and> enqueued (step init (MessageCreate msg_hola)) = []"
    by simp
  from text_only_reply [OF h', of init, unfolded Let_def] t' i
  have c2: "replies (step init (MessageCreate msg_vacio)) = []
            \<and> tasks (step init (MessageCreate msg_vacio)) = []"
    by simp
  from h t t' c1 c2 show ?thesis by blast
qed

text \<open>
  C5 as stated fails: the body of \<open>msg_blanco\<close> (a space, a line feed and a no-break
  space) is not empty, the message is not excluded and has no media, and no reply is
  attempted.
\<close>

theorem text_only_reply_counterexample:
  "\<not> fromMe msg_blanco \<and> msg_from msg_blanco \<noteq> asc ''status@broadcast''
   \<and> \<not> endsWith (msg_from msg_blanco) (asc ''@g.us'') \<and> \<not> hasMedia msg_blanco
   \<and> body msg_blanco = Some [0x0020, 0x000A, 0x00A0]
   \<and> or_empty (body msg_blanco) \<noteq> []
   \<and> replies (step init (MessageCreate msg_blanco)) = []"
  by (simp add: ex_defs model_defs obs_defs)

text \<open>
  C10.  For a message that is not excluded and has no media: when every code unit of
  the body is white space, no reply is attempted and nothing but the debug line is
  left; and a reply is attempted exactly when the trimmed body is not empty.
\<close>

theorem blank_body_no_reply:
  assumes "\<not> fromMe m" "msg_from m \<noteq> asc ''status@broadcast''"
    "\<not> endsWith (msg_from m) (asc ''@g.us'')" "\<not> hasMedia m"
  shows "let s' = step s (MessageCreate m) in
           ((\<forall>c \<in> set (or_empty (body m)). isWhiteSpace c) \<longrightarrow>
              replies s' = replies s \<and> tasks s' = tasks s
              \<and> cola s' = cola s \<and> enqueued s' = enqueued s
              \<and> trace s' = trace s @ [(clock s, Log (DebugMensaje (msg_from m) False))])
         \<and> ((replies s' \<noteq> replies s) = (trim (or_empty (body m)) \<noteq> []))"
  using assms
  by (simp add: on_message_create_def Let_def observers trim_blank)

theorem blank_body_no_reply_witness:
  "\<not> fromMe msg_blanco \<and> msg_from msg_blanco \<noteq> asc ''status@broadcast''
   \<and> \<not> endsWith (msg_from msg_blanco) (asc ''@g.us'') \<and> \<not> hasMedia msg_blanco
   \<and> filter (\<lambda>c. \<not> isWhiteSpace c) (or_empty (body msg_blanco)) = []
   \<and> replies (step init (MessageCreate msg_blanco)) = []
   \<and> tasks (step init (MessageCreate msg_blanco)) = []"
proof -
  have h: "\<not> fromMe msg_blanco" "msg_from msg_blanco \<noteq> asc ''status@broadcast''"
    "\<not> endsWith (msg_from msg_blanco) (asc ''@g.us'')" "\<not> hasMedia msg_blanco"
    by (simp_all add: ex_defs endsWith_def asc_def)
  have w: "\<forall>c \<in> set (or_empty (body msg_blanco)). isWhiteSpace c"
    by (simp add: ex_defs or_empty_def isWhiteSpace_def)
  have i: "tasks init = []" "replies init = []"
    by (simp_all add: init_def obs_defs)
  from blank_body_no_reply [OF h, of init, unfolded Let_def] w i
  have "replies (step init (MessageCreate msg_blanco)) = []
        \<and> tasks (step init (MessageCreate msg_blanco)) = []"
    by simp
  moreover have "filter (\<lambda>c. \<not> isWhiteSpace c) (or_empty (body msg_blanco)) = []"
    by (simp add: ex_defs or_empty_def isWhiteSpace_def)
  ultimately show ?thesis using h by blast
qed

text \<open>
  C3.  When the download of a message's media yields an attachment: if its MIME type
  is one of \<open>application/pdf\<close>, \<open>image/jpeg\<close>, \<open>image/png\<close>, \<open>image/jpg\<close>, one item
  pairing the attachment with the message is pushed, and it is from then on either
  queued or posted; for any other MIME type nothing is pushed, the queue is left as it
  was and only the line naming the unsupported type is logged.  In neither case is a
  reply attempted.
\<close>

theorem mime_allow_list:
  assumes "map_of (tasks s) i = Some (HDownload m)"
  shows "let s' = step s (DownloadDone i (Inr (Some md))); item = \<lparr>media = md, msg = m\<rparr> in
           (mimetype md \<in> {asc ''application/pdf'', asc ''image/jpeg'', asc ''image/png'',
                            asc ''image/jpg''} \<longrightarrow>
              enqueued s' = enqueued s @ [item]
              \<and> forwarded s' @ cola s' = (forwarded s @ cola s) @ [item])
         \<and> (mimetype md \<notin> {asc ''application/pdf'', asc ''image/jpeg'', asc ''image/png'',
                            asc ''image/jpg''} \<longrightarrow>
              enqueued s' = enqueued s \<and> cola s' = cola s \<and> forwarded s' = forwarded s
              \<and> trace s' = trace s @ [(clock s, Log (TipoNoSoportado (mimetype md)))])
         \<and> replies s' = replies s"
proof -
  have valid: "set tiposValidos = {asc ''application/pdf'', asc ''image/jpeg'',
      asc ''image/png'', asc ''image/jpg''}"
    by (simp add: tiposValidos_def)
  show ?thesis
    using assms unfolding Let_def valid [symmetric]
    by (cases "cola s")
       (simp_all add: after_download_def enqueue_def procesarCola_def procesarCola_loop_def
         observers)
qed

theorem mime_allow_list_witness:
  "map_of (tasks (step init (MessageCreate msg_recibo))) 0 = Some (HDownload msg_recibo)
   \<and> mimetype media_png \<in> {asc ''application/pdf'', asc ''image/jpeg'', asc ''image/png'',
                             asc ''image/jpg''}
   \<and> enqueued (step (step init (MessageCreate msg_recibo))
        (DownloadDone 0 (Inr (Some media_png)))) = [item_png]
   \<and> mimetype media_gif \<notin> {asc ''application/pdf'', asc ''image/jpeg'', asc ''image/png'',
                             asc ''image/jpg''}
   \<and> enqueued (step (step init (MessageCreate msg_recibo))
        (DownloadDone 0 (Inr (Some media_gif)))) = []
   \<and> replies (step (step init (MessageCreate msg_recibo))
        (DownloadDone 0 (Inr (Some media_gif)))) = []"
proof -
  let ?s = "step init (MessageCreate msg_recibo)"
  have h: "map_of (tasks ?s) 0 = Some (HDownload msg_recibo)"
    by (simp add: ex_defs model_defs)
  have p: "mimetype media_png \<in> {asc ''application/pdf'', asc ''image/jpeg'', asc ''image/png'',
                             asc ''image/jpg''}"
    by (simp add: ex_defs asc_def)
  have g: "mimetype media_gif \<notin> {asc ''application/pdf'', asc ''image/jpeg'', asc ''image/png'',
                             asc ''image/jpg''}"
    by (simp add: ex_defs asc_def)
  have i: "enqueued ?s = []" "replies ?s = []"
    by (simp_all add: ex_defs model_defs obs_defs)
  from mime_allow_list [OF h, of media_png, unfolded Let_def] p
  have "enqueued (step ?s (DownloadDone 0 (Inr (Some media_png))))
          = enqueued ?s @ [\<lparr>media = media_png, msg = msg_recibo\<rparr>]"
    by blast
  with i have c1: "enqueued (step ?s (DownloadDone 0 (Inr (Some media_png)))) = [item_png]"
    by (simp add: item_png_def del: step.simps)
  from mime_allow_list [OF h, of media_gif, unfolded Let_def] g
  have "enqueued (step ?s (DownloadDone 0 (Inr (Some media_gif)))) = enqueued ?s
        \<and> replies (step ?s (DownloadDone 0 (Inr (Some media_gif)))) = replies ?s"
    by blast
  with i have c2: "enqueued (step ?s (DownloadDone 0 (Inr (Some media_gif)))) = []
            \<and> replies (step ?s (DownloadDone 0 (Inr (Some media_gif)))) = []"
    by (simp del: step.simps)
  from h p g c1 c2 show ?thesis by blast
qed

subsection \<open>The forwarder\<close>

lemma reply_done_quiet:
  "replies (step s (ReplyDone j r)) = replies s \<and> cola (step s (ReplyDone j r)) = cola s
   \<and> enqueued (step s (ReplyDone j r)) = enqueued s
   \<and> forwarded (step s (ReplyDone j r)) = forwarded s"
  by (simp add: handler_after_reply_def worker_after_reply_def esperar_def observers
      split: option.splits task.splits)

lemma fifo_length:
  "length (forwarded (run evs)) + length (cola (run evs)) = length (enqueued (run evs))"
  using fifo_run [of evs] unfolding fifo_def by (metis length_append)

text \<open>
  The \<open>catch\<close> branch as a whole.  When the post of an item is rejected: with the code
  \<open>ECONNREFUSED\<close> the sender is sent the text that the main system is not responding,
  with the code \<open>ETIMEDOUT\<close> the text that the waiting time ran out, and with any
  other error the generic failure text; exactly one reply is attempted; the item is
  not put back in the queue and nothing is posted again, neither then nor when a reply
  settles; and in every run the posts and the queued items add up to the pushes, so no
  item is posted twice.
\<close>

lemma catch_branch_replies:
  assumes "map_of (tasks s) i = Some (WPost item)"
  shows "let s' = step s (PostDone i (Inl error)) in
           (code error = Str (asc ''ECONNREFUSED'') \<longrightarrow>
              replies s' = replies s @ [(msg item, MSG_API_CAIDA)])
         \<and> (code error = Str (asc ''ETIMEDOUT'') \<longrightarrow>
              replies s' = replies s @ [(msg item, MSG_TIMEOUT)])
         \<and> (code error \<noteq> Str (asc ''ECONNREFUSED'') \<and> code error \<noteq> Str (asc ''ETIMEDOUT'') \<longrightarrow>
              replies s' = replies s @ [(msg item, MSG_ERROR_GENERICO)])
         \<and> length (replies s') = Suc (length (replies s))
         \<and> cola s' = cola s \<and> enqueued s' = enqueued s \<and> forwarded s' = forwarded s
         \<and> tasks s' = remove1 (i, WPost item) (tasks s) @ [(next_id s, WReply item)]
         \<and> (\<forall>j r. replies (step s' (ReplyDone j r)) = replies s'
                  \<and> cola (step s' (ReplyDone j r)) = cola s'
                  \<and> enqueued (step s' (ReplyDone j r)) = enqueued s'
                  \<and> forwarded (step s' (ReplyDone j r)) = forwarded s')
         \<and> (\<forall>evs. length (forwarded (run evs)) + length (cola (run evs))
                    = length (enqueued (run evs)))"
proof -
  define s' where "s' = step s (PostDone i (Inl error))"
  have eq: "s' = catch_error (detach i (WPost item) s) item error"
    using assms by (simp add: s'_def after_post_def)
  have a: "(code error = Str (asc ''ECONNREFUSED'') \<longrightarrow>
              replies s' = replies s @ [(msg item, MSG_API_CAIDA)])
         \<and> (code error = Str (asc ''ETIMEDOUT'') \<longrightarrow>
              replies s' = replies s @ [(msg item, MSG_TIMEOUT)])
         \<and> (code error \<noteq> Str (asc ''ECONNREFUSED'') \<and> code error \<noteq> Str (asc ''ETIMEDOUT'') \<longrightarrow>
              replies s' = replies s @ [(msg item, MSG_ERROR_GENERICO)])"
    by (simp add: eq catch_error_def observers asc_def)
  have b: "length (replies s') = Suc (length (replies s))"
    "cola s' = cola s" "enqueued s' = enqueued s" "forwarded s' = forwarded s"
    "tasks s' = remove1 (i, WPost item) (tasks s) @ [(next_id s, WReply item)]"
    by (simp_all add: eq catch_error_def observers)
  have c: "\<forall>j r. replies (step s' (ReplyDone j r)) = replies s'
                  \<and> cola (step s' (ReplyDone j r)) = cola s'
                  \<and> enqueued (step s' (ReplyDone j r)) = enqueued s'
                  \<and> forwarded (step s' (ReplyDone j r)) = forwarded s'"
    using reply_done_quiet by blast
  have d: "\<forall>evs. length (forwarded (run evs)) + length (cola (run evs))
                    = length (enqueued (run evs))"
    using fifo_length by blast
  from a b c d show ?thesis unfolding Let_def s'_def [symmetric] by blast
qed


lemma reply_texts_distinct:
  "MSG_API_CAIDA \<noteq> MSG_TIMEOUT" "MSG_API_CAIDA \<noteq> MSG_ERROR_GENERICO"
  "MSG_TIMEOUT \<noteq> MSG_ERROR_GENERICO"
  by (simp_all add: MSG_API_CAIDA_def MSG_TIMEOUT_def MSG_ERROR_GENERICO_def asc_def)

text \<open>
  C2.  The only timeout the source sets up is the \<open>timeout: API_TIMEOUT\<close> of the
  request, and when it runs out \<open>axios\<close> rejects with the code \<open>ECONNABORTED\<close>.  The
  \<open>catch\<close> branch tests the code against \<open>ETIMEDOUT\<close> only, so for that error it logs
  the raw message and sends the sender the generic failure text, not the text that the
  waiting time ran out.  One reply is attempted, the item stays out of the queue and
  nothing is posted again.
\<close>

theorem request_timeout_reply:
  assumes "map_of (tasks s) i = Some (WPost item)"
  shows "let s' = step s (PostDone i (Inl err_axios_timeout)) in
           code err_axios_timeout = Str (asc ''ECONNABORTED'')
         \<and> trace s' = trace s @
              [(clock s, Log (ErrorAlProcesar (Str (asc ''timeout of 120000ms exceeded'')))),
               (clock s, Reply (msg item) MSG_ERROR_GENERICO)]
         \<and> replies s' = replies s @ [(msg item, MSG_ERROR_GENERICO)]
         \<and> replies s' \<noteq> replies s @ [(msg item, MSG_TIMEOUT)]
         \<and> cola s' = cola s \<and> enqueued s' = enqueued s \<and> forwarded s' = forwarded s"
proof -
  define s' where "s' = step s (PostDone i (Inl err_axios_timeout))"
  have eq: "s' = catch_error (detach i (WPost item) s) item err_axios_timeout"
    using assms by (simp add: s'_def after_post_def)
  have a: "code err_axios_timeout = Str (asc ''ECONNABORTED'')"
    by (simp add: err_axios_timeout_def)
  have b: "trace s' = trace s @
              [(clock s, Log (ErrorAlProcesar (Str (asc ''timeout of 120000ms exceeded'')))),
               (clock s, Reply (msg item) MSG_ERROR_GENERICO)]"
    "replies s' = replies s @ [(msg item, MSG_ERROR_GENERICO)]"
    "cola s' = cola s" "enqueued s' = enqueued s" "forwarded s' = forwarded s"
    by (simp_all add: eq catch_error_def err_axios_timeout_def observers asc_def)
  from b(2) reply_texts_distinct(3)
  have c: "replies s' \<noteq> replies s @ [(msg item, MSG_TIMEOUT)]" by simp
  from a b c show ?thesis unfolding Let_def s'_def [symmetric] by blast
qed

theorem request_timeout_reply_witness:
  "map_of (tasks (run evs_dos)) 1 = Some (WPost item_png)
   \<and> replies (step (run evs_dos) (PostDone 1 (Inl err_axios_timeout)))
       = [(msg_recibo, MSG_ERROR_GENERICO)]
   \<and> replies (step (run evs_dos) (PostDone 1 (Inl err_axios_timeout)))
       \<noteq> [(msg_recibo, MSG_TIMEOUT)]
   \<and> cola (step (run evs_dos) (PostDone 1 (Inl err_axios_timeout))) = [item_pdf]
   \<and> forwarded (step (run evs_dos) (PostDone 1 (Inl err_axios_timeout))) = [item_png]"
proof -
  let ?s' = "step (run evs_dos) (PostDone 1 (Inl err_axios_timeout))"
  have h: "map_of (tasks (run evs_dos)) 1 = Some (WPost item_png)"
    by (simp add: ex_defs model_defs)
  have i: "replies (run evs_dos) = []" "cola (run evs_dos) = [item_pdf]"
    "forwarded (run evs_dos) = [item_png]" "msg item_png = msg_recibo"
    by (simp_all add: ex_defs model_defs obs_defs)
  from request_timeout_reply [OF h, unfolded Let_def i append_Nil]
  have "replies ?s' = [(msg_recibo, MSG_ERROR_GENERICO)]
        \<and> replies ?s' \<noteq> [(msg_recibo, MSG_TIMEOUT)]
        \<and> cola ?s' = [item_pdf] \<and> forwarded ?s' = [item_png]"
    by blast
  with h show ?thesis by blast
qed




lemma uncaught_ops:
  "uncaught (procesarCola_loop s) = uncaught s" "uncaught (esperar s) = uncaught s"
  "uncaught (catch_error s item error) = uncaught s"
  by (simp_all add: procesarCola_loop_def esperar_def catch_error_def observers
      split: list.splits)

lemma uncaught_step: "\<not> init_failure e \<Longrightarrow> uncaught (step s e) = uncaught s"
proof (cases e)
  case (InitDone i r)
  assume "\<not> init_failure e"
  with InitDone have "r = None" by (cases r) simp_all
  with InitDone show ?thesis
    by (simp add: after_initialize_def observers split: option.splits task.splits)
qed (simp_all add: on_message_create_def on_disconnected_def handler_after_reply_def
      worker_after_reply_def after_download_def enqueue_def procesarCola_def after_post_def
      on_response_def reinitialize_def Let_def uncaught_ops observers
      split: option.splits task.splits sum.splits)

lemma uncaught_run:
  "\<forall>ev\<in>set evs. \<not> init_failure ev \<Longrightarrow> uncaught (foldl step s evs) = uncaught s"
  by (induction evs arbitrary: s) (simp_all add: uncaught_step)

text \<open>
  C7.  When the reply of the error branch of \<open>procesarCola\<close> fails, the state that
  results is the one a successful reply gives: nothing is recorded as uncaught and the
  activation goes on to the pause.  When the reply of the \<open>message_create\<close> handler
  fails, the state that results is the one a successful reply gives plus one logged
  line, and again nothing is recorded as uncaught.  In a whole run, as long as no
  promise of \<open>client.initialize()\<close> is rejected, nothing is ever uncaught, however
  many replies fail.
\<close>

theorem reply_failure_swallowed:
  "(map_of (tasks s) i = Some (WReply item) \<longrightarrow>
      step s (ReplyDone i (Some e)) = step s (ReplyDone i None)
      \<and> uncaught (step s (ReplyDone i (Some e))) = uncaught s
      \<and> tasks (step s (ReplyDone i (Some e)))
          = remove1 (i, WReply item) (tasks s) @ [(next_id s, WDelay (clock s + 2000))])
   \<and> (map_of (tasks s) j = Some (HReply m) \<longrightarrow>
      step s (ReplyDone j (Some e))
        = emit (Log (ErrorAlResponder (message e))) (step s (ReplyDone j None))
      \<and> uncaught (step s (ReplyDone j (Some e))) = uncaught s
      \<and> tasks (step s (ReplyDone j (Some e))) = remove1 (j, HReply m) (tasks s))
   \<and> ((\<forall>ev\<in>set evs. \<not> init_failure ev) \<longrightarrow> uncaught (run evs) = [])"
proof -
  have "(\<forall>ev\<in>set evs. \<not> init_failure ev) \<longrightarrow> uncaught (run evs) = []"
    using uncaught_run [of evs init] by (simp add: run_def init_def)
  then show ?thesis
    by (simp add: worker_after_reply_def handler_after_reply_def esperar_def observers)
qed

theorem reply_failure_swallowed_witness:
  "map_of (tasks (run evs_falla)) 3 = Some (WReply item_png)
   \<and> step (run evs_falla) (ReplyDone 3 (Some err_reply)) = step (run evs_falla) (ReplyDone 3 None)
   \<and> uncaught (step (run evs_falla) (ReplyDone 3 (Some err_reply))) = []
   \<and> map_of (tasks (step init (MessageCreate msg_hola))) 0 = Some (HReply msg_hola)
   \<and> uncaught (step (step init (MessageCreate msg_hola)) (ReplyDone 0 (Some err_reply))) = []
   \<and> tasks (step (step init (MessageCreate msg_hola)) (ReplyDone 0 (Some err_reply))) = []
   \<and> filter init_failure (evs_falla @ [ReplyDone 3 (Some err_reply)]) = []
   \<and> uncaught (run (evs_falla @ [ReplyDone 3 (Some err_reply)])) = []"
proof -
  let ?h = "step init (MessageCreate msg_hola)"
  have h1: "map_of (tasks (run evs_falla)) 3 = Some (WReply item_png)"
    "uncaught (run evs_falla) = []"
    by (simp_all add: ex_defs model_defs)
  have h2: "map_of (tasks ?h) 0 = Some (HReply msg_hola)" "uncaught ?h = []"
    "remove1 (0, HReply msg_hola) (tasks ?h) = []"
    by (simp_all add: ex_defs model_defs)
  have h3: "\<forall>ev \<in> set (evs_falla @ [ReplyDone 3 (Some err_reply)]). \<not> init_failure ev"
    by (simp add: ex_defs)
  note t1 = reply_failure_swallowed [of "run evs_falla" 3 item_png err_reply 0 msg_hola
      "evs_falla @ [ReplyDone 3 (Some err_reply)]"]
  note t2 = reply_failure_swallowed [of ?h 3 item_png err_reply 0 msg_hola "[]"]
  from t1 h1(1) h3
  have "step (run evs_falla) (ReplyDone 3 (Some err_reply))
              = step (run evs_falla) (ReplyDone 3 None)
            \<and> uncaught (step (run evs_falla) (ReplyDone 3 (Some err_reply)))
              = uncaught (run evs_falla)
            \<and> uncaught (run (evs_falla @ [ReplyDone 3 (Some err_reply)])) = []"
    by blast
  then have c1: "step (run evs_falla) (ReplyDone 3 (Some err_reply))
              = step (run evs_falla) (ReplyDone 3 None)
            \<and> uncaught (step (run evs_falla) (ReplyDone 3 (Some err_reply))) = []
            \<and> uncaught (run (evs_falla @ [ReplyDone 3 (Some err_reply)])) = []"
    by (metis h1(2))
  from t2 h2(1)
  have "uncaught (step ?h (ReplyDone 0 (Some err_reply))) = uncaught ?h
        \<and> tasks (step ?h (ReplyDone 0 (Some err_reply)))
          = remove1 (0, HReply msg_hola) (tasks ?h)"
    by blast
  then have c2: "uncaught (step ?h (ReplyDone 0 (Some err_reply))) = []
            \<and> tasks (step ?h (ReplyDone 0 (Some err_reply))) = []"
    by (metis h2(2,3))
  have h4: "filter init_failure (evs_falla @ [ReplyDone 3 (Some err_reply)]) = []"
    by (simp add: ex_defs)
  from h1(1) h2(1) h4 c1 c2 show ?thesis by blast
qed



lemma posts_ok_same: "trace s' = trace s \<Longrightarrow> posts_ok s \<Longrightarrow> posts_ok s'"
  by (simp add: posts_ok_def)











subsection \<open>The session supervisor\<close>

lemma reconnect_obs_emit:
  "reconnect_timers (emit a s) = reconnect_timers s @ reconnect_of (clock s, a)"
  "initialize_calls (emit a s) = initialize_calls s @ initialize_at (clock s, a)"
  "pending_reinits (emit a s) = pending_reinits s"
  by (simp_all add: reconnect_timers_def initialize_calls_def pending_reinits_def emit_fields)

lemma reconnect_obs_suspend:
  "reconnect_timers (suspend t s) = reconnect_timers s"
  "initialize_calls (suspend t s) = initialize_calls s"
  "pending_reinits (suspend t s) = pending_reinits s @ reinit_due (next_id s, t)"
  by (simp_all add: reconnect_timers_def initialize_calls_def pending_reinits_def suspend_fields)

lemma set_pending_remove1:
  "set (concat (map reinit_due (remove1 x xs))) \<subseteq> set (concat (map reinit_due xs))"
  by (induction xs) auto

lemma reconnect_obs_detach:
  "reconnect_timers (detach i t s) = reconnect_timers s"
  "initialize_calls (detach i t s) = initialize_calls s"
  "set (pending_reinits (detach i t s)) \<subseteq> set (pending_reinits s)"
proof -
  show "reconnect_timers (detach i t s) = reconnect_timers s"
    "initialize_calls (detach i t s) = initialize_calls s"
    by (simp_all add: reconnect_timers_def initialize_calls_def detach_fields)
  show "set (pending_reinits (detach i t s)) \<subseteq> set (pending_reinits s)"
    unfolding pending_reinits_def detach_fields by (rule set_pending_remove1)
qed

lemma reconnect_inv_emit:
  "reconnect_inv s \<Longrightarrow> a \<noteq> Initialize \<Longrightarrow> reconnect_inv (emit a s)"
  unfolding reconnect_inv_def reconnect_obs_emit
  by (cases a) (fastforce+)

lemma reconnect_inv_suspend:
  "reconnect_inv s \<Longrightarrow> reinit_due (next_id s, t) = [] \<Longrightarrow> reconnect_inv (suspend t s)"
  by (simp add: reconnect_inv_def reconnect_obs_suspend)

lemma reconnect_inv_detach: "reconnect_inv s \<Longrightarrow> reconnect_inv (detach i t s)"
  unfolding reconnect_inv_def reconnect_obs_detach
  using reconnect_obs_detach(3) by blast

lemma reconnect_inv_upd:
  "reconnect_inv (s\<lparr>cola := c\<rparr>) = reconnect_inv s"
  "reconnect_inv (s\<lparr>procesando := b\<rparr>) = reconnect_inv s"
  "reconnect_inv (s\<lparr>clock := n\<rparr>) = reconnect_inv s"
  "reconnect_inv (s\<lparr>uncaught := u\<rparr>) = reconnect_inv s"
  by (simp_all add: reconnect_inv_def reconnect_timers_def initialize_calls_def
      pending_reinits_def)

lemmas reconnect_ops = reconnect_inv_emit reconnect_inv_suspend reconnect_inv_detach
  reconnect_inv_upd

lemma reconnect_inv_loop: "reconnect_inv s \<Longrightarrow> reconnect_inv (procesarCola_loop s)"
  by (cases "cola s") (simp_all add: procesarCola_loop_def reconnect_ops)

lemma reconnect_inv_esperar: "reconnect_inv s \<Longrightarrow> reconnect_inv (esperar s)"
  by (simp add: esperar_def reconnect_ops)

lemma reconnect_inv_catch_error: "reconnect_inv s \<Longrightarrow> reconnect_inv (catch_error s item error)"
  by (simp add: catch_error_def reconnect_ops)

lemma reconnect_inv_after_post: "reconnect_inv s \<Longrightarrow> reconnect_inv (after_post s item r)"
  by (simp add: after_post_def on_response_def Let_def reconnect_inv_catch_error
      reconnect_inv_esperar reconnect_ops split: sum.splits)

lemma reconnect_inv_enqueue: "reconnect_inv s \<Longrightarrow> reconnect_inv (enqueue s item)"
  by (simp add: enqueue_def procesarCola_def reconnect_inv_loop reconnect_ops)

lemma reconnect_inv_on_disconnected:
  assumes "reconnect_inv s"
  shows "reconnect_inv (on_disconnected s reason)"
proof -
  let ?s1 = "emit (Log IntentandoReconectar)
      (emit (Log (Desconectado reason)) (emit (Log (Desconectado reason)) s))"
  have 1: "reconnect_inv ?s1" "clock ?s1 = clock s"
    using assms by (simp_all add: reconnect_ops emit_fields)
  have "reconnect_inv (suspend (TReinit (clock s + 5000)) (emit (SetTimeout CallInitialize 5000) ?s1))"
    using 1 unfolding reconnect_inv_def reconnect_obs_emit reconnect_obs_suspend
    by fastforce
  then show ?thesis by (simp add: on_disconnected_def)
qed

lemma pending_mem:
  "map_of (tasks s) i = Some (TReinit due) \<Longrightarrow> due \<in> set (pending_reinits s)"
  by (force simp: pending_reinits_def dest: map_of_SomeD)

lemma reconnect_inv_reinitialize:
  assumes "reconnect_inv s" "map_of (tasks s) i = Some (TReinit due)" "due \<le> clock s"
  shows "reconnect_inv (reinitialize (detach i (TReinit due) s))"
proof -
  from assms(1) pending_mem [OF assms(2)]
  obtain t0 d where t0: "(t0, d) \<in> set (reconnect_timers s)" "due = t0 + 5000"
    by (auto simp: reconnect_inv_def)
  have d: "reconnect_inv (detach i (TReinit due) s)"
    using assms(1) by (rule reconnect_inv_detach)
  show ?thesis
    using d t0 assms(3)
    unfolding reinitialize_def reconnect_inv_def reconnect_obs_emit reconnect_obs_suspend
      reconnect_obs_detach detach_fields
    by fastforce
qed

lemma reconnect_inv_step: "reconnect_inv s \<Longrightarrow> reconnect_inv (step s e)"
proof (cases e)
  case (TimerFired i)
  assume "reconnect_inv s" with TimerFired show ?thesis
    by (simp add: reconnect_inv_loop reconnect_inv_reinitialize reconnect_ops
        split: option.splits task.splits)
qed (simp_all add: on_message_create_def handler_after_reply_def worker_after_reply_def
      after_download_def after_initialize_def Let_def reconnect_inv_on_disconnected
      reconnect_inv_esperar reconnect_inv_enqueue reconnect_inv_after_post reconnect_ops
      split: option.splits task.splits sum.splits)

lemma reconnect_inv_run: "reconnect_inv (run evs)"
  unfolding run_def
  by (rule foldl_step_inv)
     (simp_all add: reconnect_inv_step,
      simp add: reconnect_inv_def init_def pending_reinits_def initialize_calls_def)

lemma timers_step:
  "reconnect_timers (step s e) =
     reconnect_timers s @ (if is_disconnect e then [(clock s, 5000)] else [])"
proof -
  have loop: "\<And>s. reconnect_timers (procesarCola_loop s) = reconnect_timers s"
    by (simp add: procesarCola_loop_def reconnect_timers_def observers split: list.splits)
  have esp: "\<And>s. reconnect_timers (esperar s) = reconnect_timers s"
    by (simp add: esperar_def reconnect_timers_def observers)
  have cat: "\<And>s item error. reconnect_timers (catch_error s item error) = reconnect_timers s"
    by (simp add: catch_error_def reconnect_timers_def observers)
  have upd: "\<And>s b c. reconnect_timers (s\<lparr>procesando := b\<rparr>) = reconnect_timers s"
    "\<And>s c. reconnect_timers (s\<lparr>cola := c\<rparr>) = reconnect_timers s"
    "\<And>s c. reconnect_timers (s\<lparr>clock := c\<rparr>) = reconnect_timers s"
    "\<And>s c. reconnect_timers (s\<lparr>uncaught := c\<rparr>) = reconnect_timers s"
    by (simp_all add: reconnect_timers_def)
  show ?thesis
    by (cases e)
       (simp_all add: on_message_create_def on_disconnected_def handler_after_reply_def
         worker_after_reply_def after_download_def after_post_def on_response_def
         after_initialize_def reinitialize_def enqueue_def procesarCola_def Let_def loop esp cat
         upd reconnect_obs_emit reconnect_obs_suspend reconnect_obs_detach emit_fields
         split: option.splits task.splits sum.splits)
qed

lemma timers_foldl:
  "map snd (reconnect_timers (foldl step s evs)) =
     map snd (reconnect_timers s) @ replicate (length (filter is_disconnect evs)) 5000"
  by (induction evs arbitrary: s) (simp_all add: timers_step replicate_app_Cons_same)

text \<open>
  C9.  Whatever the state and the reason, a \<open>disconnected\<close> event logs its lines and
  sets one timer of 5000 ms whose callback calls \<open>client.initialize()\<close>; no condition
  and no counter is consulted.  Such a timer does nothing before it is due and calls
  \<open>client.initialize()\<close> when it fires at or after that instant.  In every run there
  are as many such timers, all of 5000 ms, as there were \<open>disconnected\<close> events, and
  every call of \<open>client.initialize()\<close> comes 5000 ms or more after one of them was
  set.
\<close>

theorem reconnect_after_disconnect:
  "(let s' = step s (Disconnected reason) in
      trace s' = trace s @
        [(clock s, Log (Desconectado reason)), (clock s, Log (Desconectado reason)),
         (clock s, Log IntentandoReconectar), (clock s, SetTimeout CallInitialize 5000)]
      \<and> tasks s' = tasks s @ [(next_id s, TReinit (clock s + 5000))])
   \<and> (map_of (tasks s) i = Some (TReinit due) \<longrightarrow>
        (clock s < due \<longrightarrow> step s (TimerFired i) = s)
      \<and> (due \<le> clock s \<longrightarrow>
           initialize_calls (step s (TimerFired i)) = initialize_calls s @ [clock s]))
   \<and> map snd (reconnect_timers (run evs)) = replicate (length (filter is_disconnect evs)) 5000
   \<and> (\<forall>t \<in> set (initialize_calls (run evs)).
        \<exists>(t0, d) \<in> set (reconnect_timers (run evs)). t0 + 5000 \<le> t)"
proof -
  have a: "map snd (reconnect_timers (run evs)) = replicate (length (filter is_disconnect evs)) 5000"
    using timers_foldl [of init evs] by (simp add: run_def init_def reconnect_timers_def)
  have b: "\<forall>t \<in> set (initialize_calls (run evs)).
        \<exists>(t0, d) \<in> set (reconnect_timers (run evs)). t0 + 5000 \<le> t"
    using reconnect_inv_run [of evs] by (simp add: reconnect_inv_def)
  have c: "map_of (tasks s) i = Some (TReinit due) \<longrightarrow>
        (clock s < due \<longrightarrow> step s (TimerFired i) = s)
      \<and> (due \<le> clock s \<longrightarrow>
           initialize_calls (step s (TimerFired i)) = initialize_calls s @ [clock s])"
    by (simp add: reinitialize_def reconnect_obs_emit reconnect_obs_suspend reconnect_obs_detach
        detach_fields)
  have d: "let s' = step s (Disconnected reason) in
      trace s' = trace s @
        [(clock s, Log (Desconectado reason)), (clock s, Log (Desconectado reason)),
         (clock s, Log IntentandoReconectar), (clock s, SetTimeout CallInitialize 5000)]
      \<and> tasks s' = tasks s @ [(next_id s, TReinit (clock s + 5000))]"
    by (simp add: on_disconnected_def emit_fields suspend_fields)
  from a b c d show ?thesis by blast
qed

theorem reconnect_after_disconnect_witness:
  "map_of (tasks (run evs_caida)) 1 = Some (TReinit 8100)
   \<and> clock (run evs_caida) < 8100
   \<and> step (run evs_caida) (TimerFired 1) = run evs_caida
   \<and> map_of (tasks (run (evs_caida @ [Tick 3000]))) 1 = Some (TReinit 8100)
   \<and> 8100 \<le> clock (run (evs_caida @ [Tick 3000]))
   \<and> initialize_calls (step (run (evs_caida @ [Tick 3000])) (TimerFired 1)) = [5100, 8100]
   \<and> tasks (step init (Disconnected Null)) = [(0, TReinit 5000)]
   \<and> map snd (reconnect_timers (run evs_caida)) = [5000, 5000]
   \<and> initialize_calls (run evs_caida) = [5100]
   \<and> reconnect_timers (run evs_caida) = [(100, 5000), (3100, 5000)]"
proof -
  have h1: "map_of (tasks (run evs_caida)) 1 = Some (TReinit 8100)"
    "clock (run evs_caida) < 8100"
    by (simp_all add: ex_defs model_defs)
  have h2: "map_of (tasks (run (evs_caida @ [Tick 3000]))) 1 = Some (TReinit 8100)"
    "8100 \<le> clock (run (evs_caida @ [Tick 3000]))"
    "clock (run (evs_caida @ [Tick 3000])) = 8100"
    "initialize_calls (run (evs_caida @ [Tick 3000])) = [5100]"
    by (simp_all add: ex_defs model_defs obs_defs)
  have h3: "5100 \<in> set (initialize_calls (run evs_caida))"
    "length (filter is_disconnect evs_caida) = 2"
    "tasks init = []" "next_id init = 0" "clock init = 0"
    by (simp_all add: ex_defs model_defs obs_defs)
  note t1 = reconnect_after_disconnect [of "run evs_caida" Null 1 8100 evs_caida,
      unfolded Let_def]
  note t2 = reconnect_after_disconnect [of "run (evs_caida @ [Tick 3000])" Null 1 8100 "[]",
      unfolded Let_def]
  note t3 = reconnect_after_disconnect [of init Null 1 8100 "[]", unfolded Let_def]
  from t1 h1 have c1: "step (run evs_caida) (TimerFired 1) = run evs_caida" by blast
  from t2 h2
  have c2: "initialize_calls (step (run (evs_caida @ [Tick 3000])) (TimerFired 1)) = [5100, 8100]"
    by simp
  from t3 h3(3,4,5) have c3: "tasks (step init (Disconnected Null)) = [(0, TReinit 5000)]"
    by simp
  from t1 h3(2) have c4: "map snd (reconnect_timers (run evs_caida)) = [5000, 5000]"
    by (simp add: numeral_2_eq_2)
  from t1 h3(1) have "\<exists>(t0, d) \<in> set (reconnect_timers (run evs_caida)). t0 + 5000 \<le> 5100"
    by blast
  moreover have "initialize_calls (run evs_caida) = [5100]"
    "reconnect_timers (run evs_caida) = [(100, 5000), (3100, 5000)]"
    by (simp_all add: ex_defs model_defs obs_defs)
  ultimately show ?thesis using h1 h2(1,2) c1 c2 c3 c4 by blast
qed

end
